theory Spec2Isabelle
  imports Main
begin

section \<open>Time and configuration constants\<close>

text \<open>
  A point in time is the number of nanoseconds since the Unix epoch and a
  \<^verbatim>\<open>time.Duration\<close> is a number of nanoseconds. Both are unbounded integers here: the
  64-bit saturation of \<^verbatim>\<open>time.Sub\<close> (about 292 years) is out of reach of the service.
\<close>

type_synonym time = int
type_synonym duration = int

definition Second :: duration where
  "Second = 1000000000"

definition Minute :: duration where
  "Minute = 60 * Second"

definition ConcurrencyLimit :: int where
  "ConcurrencyLimit = 2"

definition CacheMaxSize :: int where
  "CacheMaxSize = 50"

definition CacheTTL :: duration where
  "CacheTTL = 10 * Minute"

definition RedisTTL :: duration where
  "RedisTTL = 30 * Minute"

definition RedisTimeout :: duration where
  "RedisTimeout = 2 * Second"

section \<open>The doubly linked list of \<^verbatim>\<open>container/list\<close>\<close>

text \<open>
  A \<^verbatim>\<open>*list.Element\<close> is a heap object; it is modelled by its address. The list itself is
  the sequence of the addresses it links, front first. An element belongs to the list
  (\<^verbatim>\<open>e.list == l\<close>) exactly when its address occurs in the sequence.
\<close>

type_synonym elem = nat

definition list_Len :: "elem list \<Rightarrow> int" where
  "list_Len l = int (length l)"

definition list_Front :: "elem list \<Rightarrow> elem option" where
  "list_Front l = (case l of [] \<Rightarrow> None | e # _ \<Rightarrow> Some e)"

definition list_Remove :: "elem \<Rightarrow> elem list \<Rightarrow> elem list" where
  "list_Remove e l = (if e \<in> set l then removeAll e l else l)"

definition list_MoveToBack :: "elem \<Rightarrow> elem list \<Rightarrow> elem list" where
  "list_MoveToBack e l =
     (if e \<notin> set l \<or> last l = e then l else removeAll e l @ [e])"

definition list_PushBack :: "elem \<Rightarrow> elem list \<Rightarrow> elem list" where
  "list_PushBack e l = l @ [e]"

section \<open>TTLCache\<close>

record 'v cacheEntry =
  ekey :: string
  evalue :: 'v

text \<open>
  The struct \<^verbatim>\<open>TTLCache\<close>, without its mutex (every method holds it from entry to exit, so
  the methods are atomic state transformers). \<open>elems\<close> is the heap of the list elements,
  mapping an element's address to the \<^verbatim>\<open>*cacheEntry\<close> it carries, and \<open>nextElem\<close> is the
  address the next \<^verbatim>\<open>PushBack\<close> allocates.
\<close>

record 'v TTLCache =
  maxSize :: int
  ttl :: duration
  cache :: "string \<rightharpoonup> elem"
  lruList :: "elem list"
  timestamps :: "string \<rightharpoonup> time"
  elems :: "elem \<rightharpoonup> 'v cacheEntry"
  nextElem :: elem

definition NewTTLCache :: "int \<Rightarrow> duration \<Rightarrow> 'v TTLCache" where
  "NewTTLCache maxSize0 ttl0 =
     \<lparr>maxSize = maxSize0, ttl = ttl0, cache = Map.empty, lruList = [],
      timestamps = Map.empty, elems = Map.empty, nextElem = 0\<rparr>"

text \<open>
  \<^verbatim>\<open>Get\<close> reads the clock once (\<^verbatim>\<open>time.Since\<close>); the reading is the argument \<open>now\<close>. The
  result \<open>None\<close> is \<^verbatim>\<open>(nil, false)\<close> and \<open>Some v\<close> is \<^verbatim>\<open>(v, true)\<close>. A pointer of the map
  or of the list always points to an element, so \<open>elems\<close> is defined at every address the
  methods read (a part of \<open>cache_inv\<close> below); what the model answers at an address without
  an element, here and in \<open>evict_oldest\<close>, is never used.
\<close>

definition Get :: "'v TTLCache \<Rightarrow> time \<Rightarrow> string \<Rightarrow> 'v option \<times> 'v TTLCache" where
  "Get c now key =
     (case cache c key of
        None \<Rightarrow> (None, c)
      | Some element \<Rightarrow>
          if (case timestamps c key of None \<Rightarrow> True | Some timestamp \<Rightarrow> now - timestamp > ttl c)
          then (None, c\<lparr>lruList := list_Remove element (lruList c),
                         cache := (cache c)(key := None),
                         timestamps := (timestamps c)(key := None)\<rparr>)
          else (map_option evalue (elems c element),
                c\<lparr>lruList := list_MoveToBack element (lruList c)\<rparr>))"

text \<open>
  \<^verbatim>\<open>Put\<close> reads the clock once (\<^verbatim>\<open>time.Now\<close>), in either branch. The eviction step is
  \<open>evict_oldest\<close>: the guard \<^verbatim>\<open>oldest != nil\<close> is the case \<open>list_Front = None\<close>.
\<close>

definition evict_oldest :: "'v TTLCache \<Rightarrow> 'v TTLCache" where
  "evict_oldest c =
     (case list_Front (lruList c) of
        None \<Rightarrow> c
      | Some oldest \<Rightarrow>
          (case elems c oldest of
             None \<Rightarrow> c\<lparr>lruList := list_Remove oldest (lruList c)\<rparr>
           | Some entry \<Rightarrow>
               c\<lparr>lruList := list_Remove oldest (lruList c),
                 cache := (cache c)(ekey entry := None),
                 timestamps := (timestamps c)(ekey entry := None)\<rparr>))"

definition Put :: "'v TTLCache \<Rightarrow> time \<Rightarrow> string \<Rightarrow> 'v \<Rightarrow> 'v TTLCache" where
  "Put c now key val =
     (case cache c key of
        Some element \<Rightarrow>
          c\<lparr>lruList := list_MoveToBack element (lruList c),
            elems := (elems c)(element := map_option (\<lambda>entry. entry\<lparr>evalue := val\<rparr>) (elems c element)),
            timestamps := (timestamps c)(key \<mapsto> now)\<rparr>
      | None \<Rightarrow>
          (let c1 = (if list_Len (lruList c) \<ge> maxSize c then evict_oldest c else c);
               element = nextElem c1
           in c1\<lparr>elems := (elems c1)(element \<mapsto> \<lparr>ekey = key, evalue = val\<rparr>),
                 nextElem := Suc element,
                 lruList := list_PushBack element (lruList c1),
                 cache := (cache c1)(key \<mapsto> element),
                 timestamps := (timestamps c1)(key \<mapsto> now)\<rparr>))"

definition Size :: "'v TTLCache \<Rightarrow> int" where
  "Size c = list_Len (lruList c)"

definition Clear :: "'v TTLCache \<Rightarrow> 'v TTLCache" where
  "Clear c = c\<lparr>cache := Map.empty, lruList := [], timestamps := Map.empty\<rparr>"

text \<open>A sequence of cache operations, each with the clock reading it makes.\<close>

datatype 'v cache_op = OpGet time string | OpPut time string 'v | OpClear

fun apply_op :: "'v TTLCache \<Rightarrow> 'v cache_op \<Rightarrow> 'v TTLCache" where
  "apply_op c (OpGet now key) = snd (Get c now key)"
| "apply_op c (OpPut now key val) = Put c now key val"
| "apply_op c OpClear = Clear c"

definition run_ops :: "'v TTLCache \<Rightarrow> 'v cache_op list \<Rightarrow> 'v TTLCache" where
  "run_ops c ops = foldl apply_op c ops"

text \<open>
  The consistency of the three structures \<^verbatim>\<open>cache\<close>, \<^verbatim>\<open>lruList\<close> and \<^verbatim>\<open>timestamps\<close>: the list
  has no element twice, the map sends a key to a list element that carries that key, every
  list element is the image of its own key, and the timestamps cover the same keys.
\<close>

definition cache_inv :: "'v TTLCache \<Rightarrow> bool" where
  "cache_inv c \<longleftrightarrow>
     distinct (lruList c) \<and>
     (\<forall>a \<in> set (lruList c). a < nextElem c) \<and>
     (\<forall>k a. cache c k = Some a \<longrightarrow>
        a \<in> set (lruList c) \<and> (\<exists>entry. elems c a = Some entry \<and> ekey entry = k)) \<and>
     (\<forall>a \<in> set (lruList c). \<exists>entry. elems c a = Some entry \<and> cache c (ekey entry) = Some a) \<and>
     dom (timestamps c) = dom (cache c)"

text \<open>The keys of the cache in recency order, least recently used first.\<close>

definition lru_keys :: "'v TTLCache \<Rightarrow> string list" where
  "lru_keys c = map (\<lambda>a. ekey (the (elems c a))) (lruList c)"

text \<open>The key carried by a list element, and the expiry test of \<^verbatim>\<open>Get\<close> by itself.\<close>

definition key_of :: "'v TTLCache \<Rightarrow> elem \<Rightarrow> string" where
  "key_of c a = ekey (the (elems c a))"

definition expired :: "'v TTLCache \<Rightarrow> time \<Rightarrow> string \<Rightarrow> bool" where
  "expired c now key \<longleftrightarrow>
     (case timestamps c key of None \<Rightarrow> True | Some timestamp \<Rightarrow> now - timestamp > ttl c)"

text \<open>A sequence of insertions, as operations, and the keys it inserts.\<close>

definition put_ops :: "(time \<times> string \<times> 'v) list \<Rightarrow> 'v cache_op list" where
  "put_ops ps = map (\<lambda>(now, key, val). OpPut now key val) ps"

definition put_keys :: "(time \<times> string \<times> 'v) list \<Rightarrow> string list" where
  "put_keys ps = map (\<lambda>(now, key, val). key) ps"

section \<open>Templates, localization tables and artifacts\<close>

record ComponentTemplate =
  ComponentName_t :: string
  ComponentType_t :: string
  Template_t :: string
  RequiredKeys_t :: "string list"

record ComponentMetadata =
  ComponentID :: string
  LastUpdated :: string
  RequiredKeys :: "string list"

record LocalizedComponent =
  ComponentName :: string
  ComponentType :: string
  Language :: string
  Template :: string
  LocalizedData :: "string \<rightharpoonup> string"
  Metadata :: ComponentMetadata
  Cached :: bool

text \<open>
  The two global tables \<^verbatim>\<open>componentTemplates\<close> and \<^verbatim>\<open>localizationDB\<close> are read, never
  written. The functions below take them as a parameter, so that they can be stated for
  any tables; \<open>the_registry\<close> further down holds the tables of the source. A Go map with
  iteration (\<^verbatim>\<open>range componentTemplates\<close>) is an association list, read with \<open>map_of\<close>; Go
  leaves the iteration order open, so only the set of its keys is used, never their order
  in the list.
\<close>

record registry =
  reg_templates :: "(string \<times> ComponentTemplate) list"
  reg_l10n :: "string \<rightharpoonup> (string \<rightharpoonup> string)"

section \<open>Formatting\<close>

text \<open>\<^verbatim>\<open>%d\<close> of \<^verbatim>\<open>fmt.Sprintf\<close>: the decimal digits, with a minus sign for a negative number.\<close>

definition digit :: "nat \<Rightarrow> char" where
  "digit n = ''0123456789'' ! n"

fun showNat :: "nat \<Rightarrow> string" where
  "showNat n = (if n < 10 then [digit n] else showNat (n div 10) @ [digit (n mod 10)])"

declare showNat.simps [simp del]

definition formatInt :: "int \<Rightarrow> string" where
  "formatInt i = (if i < 0 then CHR ''-'' # showNat (nat (- i)) else showNat (nat i))"

text \<open>Go's \<^verbatim>\<open>%\<close> truncates towards zero: the remainder has the sign of the dividend.\<close>

definition go_rem :: "int \<Rightarrow> int \<Rightarrow> int" where
  "go_rem a b = sgn a * (\<bar>a\<bar> mod \<bar>b\<bar>)"

definition UnixMilli :: "time \<Rightarrow> int" where
  "UnixMilli t = t div 1000000"

section \<open>interpolateTemplate\<close>

text \<open>
  The pattern \<^verbatim>\<open>\{l10n\.([a-zA-Z_]+)\}\<close>. Every character of the pattern is ASCII, so matching
  the bytes of the string is matching its runes. \<open>match_l10nPattern s\<close> is the match of the
  pattern that starts at the first byte of \<open>s\<close>, with the rest of \<open>s\<close> after it: the text
  \<^verbatim>\<open>{l10n.\<close>, the longest run of key characters, which must not be empty, and a closing
  brace. The run is followed by a byte that is no key character, so no shorter run matches.
\<close>

definition is_key_char :: "char \<Rightarrow> bool" where
  "is_key_char c \<longleftrightarrow>
     (let n = (of_char c :: nat) in (97 \<le> n \<and> n \<le> 122) \<or> (65 \<le> n \<and> n \<le> 90) \<or> n = 95)"

definition match_l10nPattern :: "string \<Rightarrow> (string \<times> string) option" where
  "match_l10nPattern s =
     (if take 6 s = ''{l10n.'' then
        (let name = takeWhile is_key_char (drop 6 s);
             after = dropWhile is_key_char (drop 6 s)
         in if name \<noteq> [] \<and> take 1 after = ''}''
            then Some (take (6 + length name + 1) s, drop 1 after)
            else None)
      else None)"

text \<open>The callback of \<^verbatim>\<open>ReplaceAllStringFunc\<close>: the key is \<^verbatim>\<open>match[6 : len(match)-1]\<close>.\<close>

definition replace_match :: "(string \<rightharpoonup> string) \<Rightarrow> string \<Rightarrow> string" where
  "replace_match localizedData match =
     (let key = take (length match - 1 - 6) (drop 6 match)
      in case localizedData key of
           Some val \<Rightarrow> [CHR 0x22] @ val @ [CHR 0x22]
         | None \<Rightarrow> match)"

text \<open>
  \<^verbatim>\<open>ReplaceAllStringFunc\<close> scans from the left: where the pattern matches, the match is
  replaced and the scan goes on behind it; elsewhere one byte is copied.
\<close>

function interpolateTemplate :: "string \<Rightarrow> (string \<rightharpoonup> string) \<Rightarrow> string" where
  "interpolateTemplate [] localizedData = []"
| "interpolateTemplate (c # cs) localizedData =
     (case match_l10nPattern (c # cs) of
        Some (match, rest) \<Rightarrow> replace_match localizedData match @ interpolateTemplate rest localizedData
      | None \<Rightarrow> c # interpolateTemplate cs localizedData)"
  by pat_completeness auto
termination
proof (relation "measure (\<lambda>(s, m). length s)")
  show "wf (measure (\<lambda>(s, m). length s))" by simp
next
  fix c :: char and cs :: string and localizedData :: "string \<rightharpoonup> string"
    and x2 :: "string \<times> string" and match rest :: string
  assume m: "match_l10nPattern (c # cs) = Some x2" and x: "(match, rest) = x2"
  have "length (dropWhile is_key_char (drop 6 (c # cs))) \<le> length (c # cs)"
    by (rule order_trans[OF length_dropWhile_le]) simp
  then have "length rest < length (c # cs)"
    using m x
    by (auto simp: match_l10nPattern_def Let_def drop_Suc split: if_splits
             simp del: length_drop)
  then show "((rest, localizedData), (c # cs, localizedData)) \<in> measure (\<lambda>(s, m). length s)"
    by simp
next
  fix c :: char and cs :: string and localizedData :: "string \<rightharpoonup> string"
  show "((cs, localizedData), (c # cs, localizedData)) \<in> measure (\<lambda>(s, m). length s)"
    by simp
qed

text \<open>The marker text for a key.\<close>

definition marker :: "string \<Rightarrow> string" where
  "marker key = ''{l10n.'' @ key @ ''}''"

section \<open>getLocalizedComponent\<close>

text \<open>
  The clock readings of one request, in the order the handler makes them: \<^verbatim>\<open>time.Since\<close> in
  \<^verbatim>\<open>Get\<close>, \<^verbatim>\<open>time.Now\<close> for the component id, \<^verbatim>\<open>time.Now\<close> for \<^verbatim>\<open>last_updated\<close>, \<^verbatim>\<open>time.Now\<close> in
  \<^verbatim>\<open>Put\<close>.
\<close>

record clock =
  tGet :: time
  tGenID :: time
  tGenStamp :: time
  tPut :: time

type_synonym go_error = string

text \<open>
  The library functions the source calls and does not define: the RFC 3339 rendering of a
  time in UTC, and the JSON encoding and decoding of an artifact.
\<close>

record library =
  formatRFC3339 :: "time \<Rightarrow> string"
  json_Marshal :: "LocalizedComponent \<Rightarrow> go_error + string"
  json_Unmarshal :: "string \<Rightarrow> go_error + LocalizedComponent"

definition placeholder :: "string \<Rightarrow> string" where
  "placeholder key = ''['' @ key @ '']''"

definition componentStrings_of :: "(string \<rightharpoonup> string) \<Rightarrow> string list \<Rightarrow> (string \<rightharpoonup> string)" where
  "componentStrings_of strings requiredKeys =
     foldl (\<lambda>componentStrings key.
              componentStrings(key \<mapsto> (case strings key of Some val \<Rightarrow> val | None \<Rightarrow> placeholder key)))
           Map.empty requiredKeys"

definition getLocalizedComponent ::
  "registry \<Rightarrow> library \<Rightarrow> clock \<Rightarrow> string \<Rightarrow> string \<Rightarrow> go_error + LocalizedComponent" where
  "getLocalizedComponent reg lib clk componentType lang =
     (case map_of (reg_templates reg) componentType of
        None \<Rightarrow> Inl (''component type '' @ [CHR 0x27] @ componentType @ [CHR 0x27] @ '' not found'')
      | Some template \<Rightarrow>
          (let (strings, actualLang) =
                 (case reg_l10n reg lang of
                    Some strings \<Rightarrow> (strings, lang)
                  | None \<Rightarrow> (case reg_l10n reg ''en'' of Some strings \<Rightarrow> strings | None \<Rightarrow> Map.empty,
                             ''en''));
               componentStrings = componentStrings_of strings (RequiredKeys_t template);
               localizedTemplate = interpolateTemplate (Template_t template) componentStrings;
               componentID = componentType @ ''_'' @ actualLang @ ''_'' @
                             formatInt (go_rem (UnixMilli (tGenID clk)) 10000)
           in Inr \<lparr>ComponentName = ComponentName_t template,
                   ComponentType = ComponentType_t template,
                   Language = actualLang,
                   Template = localizedTemplate,
                   LocalizedData = componentStrings,
                   Metadata = \<lparr>ComponentID = componentID,
                               LastUpdated = formatRFC3339 lib (tGenStamp clk),
                               RequiredKeys = RequiredKeys_t template\<rparr>,
                   Cached = False\<rparr>))"

section \<open>The remote tier\<close>

text \<open>
  The Redis client is outside the source. For one request it is the answers it gives: to
  \<^verbatim>\<open>Get\<close> a value or an error (among them \<^verbatim>\<open>redis.Nil\<close> for an absent key and the timeout of
  the 2 second context), to \<^verbatim>\<open>Set\<close> and \<^verbatim>\<open>Expire\<close> an error or none. The global \<^verbatim>\<open>redisClient\<close>
  is \<open>None\<close> when \<^verbatim>\<open>main\<close> has set it to nil. The calls a request makes are recorded.
\<close>

record redis =
  redis_Get :: "string \<Rightarrow> go_error + string"
  redis_Set :: "string \<Rightarrow> string \<Rightarrow> duration \<Rightarrow> go_error option"
  redis_Expire :: "string \<Rightarrow> duration \<Rightarrow> go_error option"

datatype redis_call =
    CallGet string
  | CallSet string string duration
  | CallExpire string duration

definition getFromRedis :: "library \<Rightarrow> redis \<Rightarrow> string \<Rightarrow> go_error + LocalizedComponent" where
  "getFromRedis lib client key =
     (case redis_Get client key of
        Inl err \<Rightarrow> Inl err
      | Inr val \<Rightarrow>
          (case json_Unmarshal lib val of
             Inl err \<Rightarrow> Inl err
           | Inr component \<Rightarrow> Inr component))"

text \<open>\<open>setInRedis\<close> returns its error and the call it made, none when the encoding fails.\<close>

definition setInRedis ::
  "library \<Rightarrow> redis \<Rightarrow> string \<Rightarrow> LocalizedComponent \<Rightarrow> go_error option \<times> redis_call list" where
  "setInRedis lib client key component =
     (case json_Marshal lib component of
        Inl err \<Rightarrow> (Some err, [])
      | Inr data \<Rightarrow> (redis_Set client key data RedisTTL, [CallSet key data RedisTTL]))"

section \<open>The lookup handler\<close>

text \<open>
  The response of the handler: status 200 with the artifact, or status 404 with the error
  text and \<^verbatim>\<open>available_components\<close>. The handler fills that slice by ranging over the map
  \<^verbatim>\<open>componentTemplates\<close>, so it holds every key of the map once, in an order that Go
  chooses anew at each iteration: the response carries the set of the keys.
\<close>

datatype response =
    StatusOK LocalizedComponent
  | StatusNotFound string "string set"

record outcome =
  resp :: response
  componentCache :: "LocalizedComponent TTLCache"
  calls :: "redis_call list"
  printed :: "string list"

definition cacheKey_of :: "registry \<Rightarrow> string \<Rightarrow> string \<Rightarrow> string" where
  "cacheKey_of reg componentType lang =
     (let actualLang = (case reg_l10n reg lang of Some _ \<Rightarrow> lang | None \<Rightarrow> ''en'')
      in ''component:'' @ componentType @ '':'' @ actualLang)"

text \<open>
  The part of the handler after both caches missed. \<open>made\<close> are the Redis calls made so
  far. The cache holds the pointer \<^verbatim>\<open>component\<close>, so the late assignment
  \<^verbatim>\<open>component.Cached = false\<close> reaches the cached artifact too; the artifact was encoded for
  Redis before it.
\<close>

definition generate_and_store ::
  "registry \<Rightarrow> library \<Rightarrow> redis option \<Rightarrow> clock \<Rightarrow> LocalizedComponent TTLCache \<Rightarrow>
   redis_call list \<Rightarrow> string \<Rightarrow> string \<Rightarrow> string \<Rightarrow> outcome" where
  "generate_and_store reg lib redisClient clk cache1 made cacheKey componentType lang =
     (case getLocalizedComponent reg lib clk componentType lang of
        Inl err \<Rightarrow>
          \<lparr>resp = StatusNotFound err (dom (map_of (reg_templates reg))),
           componentCache = cache1, calls = made, printed = []\<rparr>
      | Inr component \<Rightarrow>
          (let (stored, log) =
                 (case redisClient of
                    None \<Rightarrow> ([], [])
                  | Some client \<Rightarrow>
                      (case setInRedis lib client cacheKey component of
                         (Some err, cs) \<Rightarrow>
                           (cs, [''Warning: Failed to cache in Redis: '' @ err @ ''\<newline>''])
                       | (None, cs) \<Rightarrow> (cs, [])))
           in \<lparr>resp = StatusOK (component\<lparr>Cached := False\<rparr>),
               componentCache = Put cache1 (tPut clk) cacheKey (component\<lparr>Cached := False\<rparr>),
               calls = made @ stored, printed = log\<rparr>))"

text \<open>
  \<open>getLocalizedComponentEndpoint\<close>: the path parameter \<open>componentType\<close>, the query parameter
  \<^verbatim>\<open>lang\<close> (\<open>None\<close> when the request has none, for \<^verbatim>\<open>DefaultQuery\<close>), the cache before the
  request; the outcome holds the cache after it.
\<close>

definition getLocalizedComponentEndpoint ::
  "registry \<Rightarrow> library \<Rightarrow> redis option \<Rightarrow> clock \<Rightarrow> LocalizedComponent TTLCache \<Rightarrow>
   string \<Rightarrow> string option \<Rightarrow> outcome" where
  "getLocalizedComponentEndpoint reg lib redisClient clk cache0 componentType query =
     (let lang = (case query of Some l \<Rightarrow> l | None \<Rightarrow> ''en'');
          cacheKey = cacheKey_of reg componentType lang
      in case Get cache0 (tGet clk) cacheKey of
           (Some component, cache1) \<Rightarrow>
             \<lparr>resp = StatusOK (component\<lparr>Cached := True\<rparr>),
              componentCache = cache1, calls = [], printed = []\<rparr>
         | (None, cache1) \<Rightarrow>
             (case redisClient of
                None \<Rightarrow> generate_and_store reg lib redisClient clk cache1 [] cacheKey componentType lang
              | Some client \<Rightarrow>
                  (case getFromRedis lib client cacheKey of
                     Inr component \<Rightarrow>
                       \<lparr>resp = StatusOK (component\<lparr>Cached := True\<rparr>),
                        componentCache = Put cache1 (tPut clk) cacheKey component,
                        calls = [CallGet cacheKey, CallExpire cacheKey RedisTTL],
                        printed = (case redis_Expire client cacheKey RedisTTL of
                                     Some err \<Rightarrow> [''Warning: Failed to refresh Redis TTL: '' @ err @
                                                  ''\<newline>'']
                                   | None \<Rightarrow> [])\<rparr>
                   | Inl err \<Rightarrow>
                       generate_and_store reg lib redisClient clk cache1 [CallGet cacheKey]
                         cacheKey componentType lang)))"

section \<open>The tables of the source\<close>

definition welcome_template :: string where
  \<open>welcome_template =
     ''\<newline>'' @
     ''import React from '' @ [CHR 0x27] @ ''react'' @ [CHR 0x27] @ '';\<newline>'' @
     ''\<newline>'' @
     ''const WelcomeComponent = ({ className = '' @ [CHR 0x22] @ ''welcome-container'' @ [CHR 0x22] @ '' }) => {\<newline>'' @
     ''  return (\<newline>'' @
     ''    <div className={className}>\<newline>'' @
     ''      <div className='' @ [CHR 0x22] @ ''welcome-wrapper'' @ [CHR 0x22] @ ''>\<newline>'' @
     ''        <header className='' @ [CHR 0x22] @ ''welcome-header'' @ [CHR 0x22] @ ''>\<newline>'' @
     ''          <h1 className='' @ [CHR 0x22] @ ''welcome-title'' @ [CHR 0x22] @ '' data-l10n='' @ [CHR 0x22] @ ''welcome_title'' @ [CHR 0x22] @ ''>\<newline>'' @
     ''            {l10n.welcome_title}\<newline>'' @
     ''          </h1>\<newline>'' @
     ''          <p className='' @ [CHR 0x22] @ ''welcome-subtitle'' @ [CHR 0x22] @ '' data-l10n='' @ [CHR 0x22] @ ''welcome_subtitle'' @ [CHR 0x22] @ ''>\<newline>'' @
     ''            {l10n.welcome_subtitle}\<newline>'' @
     ''          </p>\<newline>'' @
     ''        </header>\<newline>'' @
     ''        <div className='' @ [CHR 0x22] @ ''welcome-actions'' @ [CHR 0x22] @ ''>\<newline>'' @
     ''          <button \<newline>'' @
     ''            className='' @ [CHR 0x22] @ ''btn btn-primary'' @ [CHR 0x22] @ '' \<newline>'' @
     ''            onClick={handleLogin}\<newline>'' @
     ''            data-l10n='' @ [CHR 0x22] @ ''login_button'' @ [CHR 0x22] @ ''\<newline>'' @
     ''          >\<newline>'' @
     ''            {l10n.login_button}\<newline>'' @
     ''          </button>\<newline>'' @
     ''          <button \<newline>'' @
     ''            className='' @ [CHR 0x22] @ ''btn btn-secondary'' @ [CHR 0x22] @ '' \<newline>'' @
     ''            onClick={handleSignup}\<newline>'' @
     ''            data-l10n='' @ [CHR 0x22] @ ''signup_button'' @ [CHR 0x22] @ ''\<newline>'' @
     ''          >\<newline>'' @
     ''            {l10n.signup_button}\<newline>'' @
     ''          </button>\<newline>'' @
     ''        </div>\<newline>'' @
     ''      </div>\<newline>'' @
     ''    </div>\<newline>'' @
     ''  );\<newline>'' @
     ''};\<newline>'' @
     ''\<newline>'' @
     ''export default WelcomeComponent;\<newline>''\<close>

definition navigation_template :: string where
  \<open>navigation_template =
     ''\<newline>'' @
     ''import React from '' @ [CHR 0x27] @ ''react'' @ [CHR 0x27] @ '';\<newline>'' @
     ''\<newline>'' @
     ''const NavigationComponent = ({ className = '' @ [CHR 0x22] @ ''navigation-container'' @ [CHR 0x22] @ '' }) => {\<newline>'' @
     ''  return (\<newline>'' @
     ''    <nav className={className}>\<newline>'' @
     ''      <ul className='' @ [CHR 0x22] @ ''nav-list'' @ [CHR 0x22] @ ''>\<newline>'' @
     ''        <li className='' @ [CHR 0x22] @ ''nav-item'' @ [CHR 0x22] @ ''>\<newline>'' @
     ''          <a href='' @ [CHR 0x22] @ ''/'' @ [CHR 0x22] @ '' className='' @ [CHR 0x22] @ ''nav-link'' @ [CHR 0x22] @ '' data-l10n='' @ [CHR 0x22] @ ''navigation_home'' @ [CHR 0x22] @ ''>\<newline>'' @
     ''            {l10n.navigation_home}\<newline>'' @
     ''          </a>\<newline>'' @
     ''        </li>\<newline>'' @
     ''        <li className='' @ [CHR 0x22] @ ''nav-item'' @ [CHR 0x22] @ ''>\<newline>'' @
     ''          <a href='' @ [CHR 0x22] @ ''/about'' @ [CHR 0x22] @ '' className='' @ [CHR 0x22] @ ''nav-link'' @ [CHR 0x22] @ '' data-l10n='' @ [CHR 0x22] @ ''navigation_about'' @ [CHR 0x22] @ ''>\<newline>'' @
     ''            {l10n.navigation_about}\<newline>'' @
     ''          </a>\<newline>'' @
     ''        </li>\<newline>'' @
     ''        <li className='' @ [CHR 0x22] @ ''nav-item'' @ [CHR 0x22] @ ''>\<newline>'' @
     ''          <a href='' @ [CHR 0x22] @ ''/contact'' @ [CHR 0x22] @ '' className='' @ [CHR 0x22] @ ''nav-link'' @ [CHR 0x22] @ '' data-l10n='' @ [CHR 0x22] @ ''navigation_contact'' @ [CHR 0x22] @ ''>\<newline>'' @
     ''            {l10n.navigation_contact}\<newline>'' @
     ''          </a>\<newline>'' @
     ''        </li>\<newline>'' @
     ''      </ul>\<newline>'' @
     ''    </nav>\<newline>'' @
     ''  );\<newline>'' @
     ''};\<newline>'' @
     ''\<newline>'' @
     ''export default NavigationComponent;\<newline>''\<close>

definition user_profile_template :: string where
  \<open>user_profile_template =
     ''\<newline>'' @
     ''import React from '' @ [CHR 0x27] @ ''react'' @ [CHR 0x27] @ '';\<newline>'' @
     ''\<newline>'' @
     ''const UserProfileComponent = ({ className = '' @ [CHR 0x22] @ ''user-profile-container'' @ [CHR 0x22] @ '' }) => {\<newline>'' @
     ''  return (\<newline>'' @
     ''    <div className={className}>\<newline>'' @
     ''      <div className='' @ [CHR 0x22] @ ''profile-wrapper'' @ [CHR 0x22] @ ''>\<newline>'' @
     ''        <h2 className='' @ [CHR 0x22] @ ''profile-title'' @ [CHR 0x22] @ '' data-l10n='' @ [CHR 0x22] @ ''user_profile_title'' @ [CHR 0x22] @ ''>\<newline>'' @
     ''          {l10n.user_profile_title}\<newline>'' @
     ''        </h2>\<newline>'' @
     ''        <div className='' @ [CHR 0x22] @ ''profile-actions'' @ [CHR 0x22] @ ''>\<newline>'' @
     ''          <button \<newline>'' @
     ''            className='' @ [CHR 0x22] @ ''btn btn-outline'' @ [CHR 0x22] @ '' \<newline>'' @
     ''            onClick={handleEditProfile}\<newline>'' @
     ''            data-l10n='' @ [CHR 0x22] @ ''user_profile_edit'' @ [CHR 0x22] @ ''\<newline>'' @
     ''          >\<newline>'' @
     ''            {l10n.user_profile_edit}\<newline>'' @
     ''          </button>\<newline>'' @
     ''        </div>\<newline>'' @
     ''      </div>\<newline>'' @
     ''    </div>\<newline>'' @
     ''  );\<newline>'' @
     ''};\<newline>'' @
     ''\<newline>'' @
     ''export default UserProfileComponent;\<newline>''\<close>

definition footer_template :: string where
  \<open>footer_template =
     ''\<newline>'' @
     ''import React from '' @ [CHR 0x27] @ ''react'' @ [CHR 0x27] @ '';\<newline>'' @
     ''\<newline>'' @
     ''const FooterComponent = ({ className = '' @ [CHR 0x22] @ ''footer-container'' @ [CHR 0x22] @ '' }) => {\<newline>'' @
     ''  return (\<newline>'' @
     ''    <footer className={className}>\<newline>'' @
     ''      <div className='' @ [CHR 0x22] @ ''footer-content'' @ [CHR 0x22] @ ''>\<newline>'' @
     ''        <p className='' @ [CHR 0x22] @ ''footer-copyright'' @ [CHR 0x22] @ '' data-l10n='' @ [CHR 0x22] @ ''footer_copyright'' @ [CHR 0x22] @ ''>\<newline>'' @
     ''          {l10n.footer_copyright}\<newline>'' @
     ''        </p>\<newline>'' @
     ''      </div>\<newline>'' @
     ''    </footer>\<newline>'' @
     ''  );\<newline>'' @
     ''};\<newline>'' @
     ''\<newline>'' @
     ''export default FooterComponent;\<newline>''\<close>

definition componentTemplates :: "(string \<times> ComponentTemplate) list" where
  "componentTemplates =
    [(''welcome'',
      \<lparr>ComponentName_t = ''WelcomeComponent'', ComponentType_t = ''functional'', Template_t = welcome_template,
       RequiredKeys_t = [''welcome_title'', ''welcome_subtitle'', ''login_button'', ''signup_button'']\<rparr>),
     (''navigation'',
      \<lparr>ComponentName_t = ''NavigationComponent'', ComponentType_t = ''functional'', Template_t = navigation_template,
       RequiredKeys_t = [''navigation_home'', ''navigation_about'', ''navigation_contact'']\<rparr>),
     (''user_profile'',
      \<lparr>ComponentName_t = ''UserProfileComponent'', ComponentType_t = ''functional'', Template_t = user_profile_template,
       RequiredKeys_t = [''user_profile_title'', ''user_profile_edit'']\<rparr>),
     (''footer'',
      \<lparr>ComponentName_t = ''FooterComponent'', ComponentType_t = ''functional'', Template_t = footer_template,
       RequiredKeys_t = [''footer_copyright'']\<rparr>)]"

definition localizationDB :: "string \<rightharpoonup> (string \<rightharpoonup> string)" where
  "localizationDB = map_of
    [(''en'', map_of [
        (''welcome_title'', ''Welcome to Our App''),
        (''welcome_subtitle'', ''Your journey starts here''),
        (''login_button'', ''Log In''),
        (''signup_button'', ''Sign Up''),
        (''navigation_home'', ''Home''),
        (''navigation_about'', ''About''),
        (''navigation_contact'', ''Contact''),
        (''footer_copyright'', [CHR 0xC2, CHR 0xAC, CHR 0xC2, CHR 0xA9] @ '' 2024 Our Company. All rights reserved.''),
        (''user_profile_title'', ''User Profile''),
        (''user_profile_edit'', ''Edit Profile''),
        (''settings_title'', ''Settings''),
        (''settings_language'', ''Language''),
        (''settings_theme'', ''Theme''),
        (''error_404'', ''Page not found''),
        (''error_500'', ''Internal server error'')]),
     (''es'', map_of [
        (''welcome_title'', ''Bienvenido a Nuestra App''),
        (''welcome_subtitle'', ''Tu viaje comienza aqu'' @ [CHR 0xE2, CHR 0x88, CHR 0x9A, CHR 0xE2, CHR 0x89, CHR 0xA0]),
        (''login_button'', ''Iniciar Sesi'' @ [CHR 0xE2, CHR 0x88, CHR 0x9A, CHR 0xE2, CHR 0x89, CHR 0xA5] @ ''n''),
        (''signup_button'', ''Registrarse''),
        (''navigation_home'', ''Inicio''),
        (''navigation_about'', ''Acerca de''),
        (''navigation_contact'', ''Contacto''),
        (''footer_copyright'', [CHR 0xC2, CHR 0xAC, CHR 0xC2, CHR 0xA9] @ '' 2024 Nuestra Empresa. Todos los derechos reservados.''),
        (''user_profile_title'', ''Perfil de Usuario''),
        (''user_profile_edit'', ''Editar Perfil''),
        (''settings_title'', ''Configuraci'' @ [CHR 0xE2, CHR 0x88, CHR 0x9A, CHR 0xE2, CHR 0x89, CHR 0xA5] @ ''n''),
        (''settings_language'', ''Idioma''),
        (''settings_theme'', ''Tema''),
        (''error_404'', ''P'' @ [CHR 0xE2, CHR 0x88, CHR 0x9A, CHR 0xC2, CHR 0xB0] @ ''gina no encontrada''),
        (''error_500'', ''Error interno del servidor'')]),
     (''fr'', map_of [
        (''welcome_title'', ''Bienvenue dans Notre App''),
        (''welcome_subtitle'', ''Votre voyage commence ici''),
        (''login_button'', ''Se Connecter''),
        (''signup_button'', ''S'' @ [CHR 0x27] @ ''inscrire''),
        (''navigation_home'', ''Accueil''),
        (''navigation_about'', [CHR 0xE2, CHR 0x88, CHR 0x9A, CHR 0xC3, CHR 0x84] @ '' Propos''),
        (''navigation_contact'', ''Contact''),
        (''footer_copyright'', [CHR 0xC2, CHR 0xAC, CHR 0xC2, CHR 0xA9] @ '' 2024 Notre Entreprise. Tous droits r'' @ [CHR 0xE2, CHR 0x88, CHR 0x9A, CHR 0xC2, CHR 0xA9] @ ''serv'' @ [CHR 0xE2, CHR 0x88, CHR 0x9A, CHR 0xC2, CHR 0xA9] @ ''s.''),
        (''user_profile_title'', ''Profil Utilisateur''),
        (''user_profile_edit'', ''Modifier le Profil''),
        (''settings_title'', ''Param'' @ [CHR 0xE2, CHR 0x88, CHR 0x9A, CHR 0xC2, CHR 0xAE] @ ''tres''),
        (''settings_language'', ''Langue''),
        (''settings_theme'', ''Th'' @ [CHR 0xE2, CHR 0x88, CHR 0x9A, CHR 0xC2, CHR 0xAE] @ ''me''),
        (''error_404'', ''Page non trouv'' @ [CHR 0xE2, CHR 0x88, CHR 0x9A, CHR 0xC2, CHR 0xA9] @ ''e''),
        (''error_500'', ''Erreur interne du serveur'')]),
     (''de'', map_of [
        (''welcome_title'', ''Willkommen in Unserer App''),
        (''welcome_subtitle'', ''Ihre Reise beginnt hier''),
        (''login_button'', ''Anmelden''),
        (''signup_button'', ''Registrieren''),
        (''navigation_home'', ''Startseite''),
        (''navigation_about'', [CHR 0xE2, CHR 0x88, CHR 0x9A, CHR 0xC3, CHR 0xBA] @ ''ber Uns''),
        (''navigation_contact'', ''Kontakt''),
        (''footer_copyright'', [CHR 0xC2, CHR 0xAC, CHR 0xC2, CHR 0xA9] @ '' 2024 Unser Unternehmen. Alle Rechte vorbehalten.''),
        (''user_profile_title'', ''Benutzerprofil''),
        (''user_profile_edit'', ''Profil Bearbeiten''),
        (''settings_title'', ''Einstellungen''),
        (''settings_language'', ''Sprache''),
        (''settings_theme'', ''Design''),
        (''error_404'', ''Seite nicht gefunden''),
        (''error_500'', ''Interner Serverfehler'')])]"

definition the_registry :: registry where
  "the_registry = \<lparr>reg_templates = componentTemplates, reg_l10n = localizationDB\<rparr>"

text \<open>The handler's cache as \<^verbatim>\<open>main\<close> starts with it.\<close>

definition componentCache0 :: "LocalizedComponent TTLCache" where
  "componentCache0 = NewTTLCache CacheMaxSize CacheTTL"


section \<open>Auxiliary definitions for the generator and the handler\<close>

text \<open>
  A clock that shows the same time at all four readings of a request.
\<close>

definition clock_at :: "time \<Rightarrow> clock" where
  "clock_at t = \<lparr>tGet = t, tGenID = t, tGenStamp = t, tPut = t\<rparr>"

text \<open>
  The component id in a response.
\<close>

definition response_id :: "response \<Rightarrow> string option" where
  "response_id r =
     (case r of StatusOK component \<Rightarrow> Some (ComponentID (Metadata component))
              | StatusNotFound _ _ \<Rightarrow> None)"

text \<open>
  The table and the language code that the language resolution of \<^verbatim>\<open>getLocalizedComponent\<close>
  yields.
\<close>

definition resolved_strings :: "registry \<Rightarrow> string \<Rightarrow> (string \<rightharpoonup> string)" where
  "resolved_strings reg lang =
     (case reg_l10n reg lang of
        Some strings \<Rightarrow> strings
      | None \<Rightarrow> (case reg_l10n reg ''en'' of Some strings \<Rightarrow> strings | None \<Rightarrow> Map.empty))"

definition resolved_lang :: "registry \<Rightarrow> string \<Rightarrow> string" where
  "resolved_lang reg lang = (case reg_l10n reg lang of Some _ \<Rightarrow> lang | None \<Rightarrow> ''en'')"

text \<open>
  A small registry with partial coverage, and a library whose decoder always fails, for
  concrete runs.
\<close>

definition demo_registry :: registry where
  "demo_registry =
     \<lparr>reg_templates =
        [(''banner'', \<lparr>ComponentName_t = ''Banner'', ComponentType_t = ''functional'',
                       Template_t = ''<b>{l10n.title}</b><i>{l10n.subtitle}</i>'',
                       RequiredKeys_t = [''title'', ''subtitle'']\<rparr>)],
      reg_l10n = [''en'' \<mapsto> [''title'' \<mapsto> ''Hi'', ''subtitle'' \<mapsto> ''there''],
                  ''fr'' \<mapsto> [''title'' \<mapsto> ''Salut'']]\<rparr>"

definition demo_library :: library where
  "demo_library =
     \<lparr>formatRFC3339 = (\<lambda>t. ''1970-01-01T00:00:00Z''),
      json_Marshal = (\<lambda>component. Inr ''{}''),
      json_Unmarshal = (\<lambda>data. Inl ''unexpected end of JSON input'')\<rparr>"

section \<open>Auxiliary definitions for the lookup handler\<close>

text \<open>
  The language of a request: \<^verbatim>\<open>c.DefaultQuery("lang", "en")\<close>.
\<close>

definition query_lang :: "string option \<Rightarrow> string" where
  "query_lang query = (case query of Some l \<Rightarrow> l | None \<Rightarrow> ''en'')"

text \<open>
  The artifact the cache holds under a key, whether expired or not.
\<close>

definition cached_value :: "'v TTLCache \<Rightarrow> string \<Rightarrow> 'v option" where
  "cached_value c key =
     Option.bind (cache c key) (\<lambda>element. map_option evalue (elems c element))"

text \<open>
  An artifact belongs under a key when the key is the cache key of a registered component and
  of the language the artifact was rendered in.
\<close>

definition slot_ok :: "registry \<Rightarrow> string \<Rightarrow> LocalizedComponent \<Rightarrow> bool" where
  "slot_ok reg key component \<longleftrightarrow>
     (\<exists>componentType lang.
        map_of (reg_templates reg) componentType \<noteq> None \<and>
        key = cacheKey_of reg componentType lang \<and>
        Language component = resolved_lang reg lang)"

text \<open>
  A property of key and artifact that holds of every entry of the cache, expired or not.
\<close>

definition slots_hold :: "(string \<Rightarrow> 'v \<Rightarrow> bool) \<Rightarrow> 'v TTLCache \<Rightarrow> bool" where
  "slots_hold P c \<longleftrightarrow> (\<forall>key component. cached_value c key = Some component \<longrightarrow> P key component)"

text \<open>
  No registered language code contains the separator of the cache key.
\<close>

definition colon_free :: "registry \<Rightarrow> bool" where
  "colon_free reg \<longleftrightarrow> (\<forall>lang. reg_l10n reg lang \<noteq> None \<longrightarrow> CHR '':'' \<notin> set lang)"

text \<open>
  A request with the Redis client and the clock it meets, and a sequence of requests served
  one after the other. (The server runs up to \<open>ConcurrencyLimit\<close> handlers at a time; each
  cache method is atomic under the mutex, and the interleaving of two handlers between their
  \<^verbatim>\<open>Get\<close> and \<^verbatim>\<open>Put\<close> is not modelled.)
\<close>

record request =
  rq_redis :: "redis option"
  rq_clock :: clock
  rq_type :: string
  rq_query :: "string option"

definition serve_one :: "registry \<Rightarrow> library \<Rightarrow> LocalizedComponent TTLCache \<Rightarrow> request \<Rightarrow>
    LocalizedComponent TTLCache" where
  "serve_one reg lib c rq =
     componentCache (getLocalizedComponentEndpoint reg lib (rq_redis rq) (rq_clock rq) c
                       (rq_type rq) (rq_query rq))"

definition serve :: "registry \<Rightarrow> library \<Rightarrow> LocalizedComponent TTLCache \<Rightarrow> request list \<Rightarrow>
    LocalizedComponent TTLCache" where
  "serve reg lib c rqs = foldl (serve_one reg lib) c rqs"

text \<open>
  The artifact fetched from the remote tier, if there is a client and the fetch succeeds.
\<close>

definition remote_fetch :: "library \<Rightarrow> redis option \<Rightarrow> string \<Rightarrow> LocalizedComponent option" where
  "remote_fetch lib redisClient key =
     (case redisClient of
        None \<Rightarrow> None
      | Some client \<Rightarrow> (case getFromRedis lib client key of Inr component \<Rightarrow> Some component | Inl err \<Rightarrow> None))"

text \<open>
  The remote tier as a store that this handler alone writes to. It is empty before the first
  request of a sequence, and a read of a key is answered, if with data at all, with data
  that an earlier request of the sequence wrote under that key. \<open>stores_of\<close> are the pairs of
  key and data of the \<^verbatim>\<open>Set\<close> calls among the Redis calls of a request; \<open>answers_from\<close> says
  that the read of a key is answered from the pairs written so far; \<open>remote_private\<close> says so
  of the read of every request of a sequence that starts with the cache \<open>c\<close> and the pairs
  \<open>stored\<close>. What was written need not be found: Redis drops an entry when its lifetime
  ends, and every call may fail.
\<close>

fun stores_of :: "redis_call list \<Rightarrow> (string \<times> string) list" where
  "stores_of [] = []"
| "stores_of (CallGet key # cs) = stores_of cs"
| "stores_of (CallSet key data expiration # cs) = (key, data) # stores_of cs"
| "stores_of (CallExpire key expiration # cs) = stores_of cs"

definition answers_from :: "(string \<times> string) list \<Rightarrow> redis option \<Rightarrow> string \<Rightarrow> bool" where
  "answers_from stored redisClient key \<longleftrightarrow>
     (case redisClient of
        None \<Rightarrow> True
      | Some client \<Rightarrow>
          (case redis_Get client key of
             Inl err \<Rightarrow> True
           | Inr data \<Rightarrow> (key, data) \<in> set stored))"

fun remote_private ::
  "registry \<Rightarrow> library \<Rightarrow> LocalizedComponent TTLCache \<Rightarrow> (string \<times> string) list \<Rightarrow>
   request list \<Rightarrow> bool" where
  "remote_private reg lib c stored [] = True"
| "remote_private reg lib c stored (rq # rqs) =
     (answers_from stored (rq_redis rq) (cacheKey_of reg (rq_type rq) (query_lang (rq_query rq))) \<and>
      remote_private reg lib (serve_one reg lib c rq)
        (stored @ stores_of (calls (getLocalizedComponentEndpoint reg lib (rq_redis rq) (rq_clock rq) c
                                      (rq_type rq) (rq_query rq))))
        rqs)"

text \<open>
  Decoding what the encoder produced gives an artifact in the language of the encoded one.
\<close>

definition json_keeps_language :: "library \<Rightarrow> bool" where
  "json_keeps_language lib \<longleftrightarrow>
     (\<forall>component data component'.
        json_Marshal lib component = Inr data \<and> json_Unmarshal lib data = Inr component' \<longrightarrow>
        Language component' = Language component)"

text \<open>
  A property of key and artifact that holds, for every pair of key and data written to the
  remote tier, of an artifact that the data encodes.
\<close>

definition stored_hold ::
  "(string \<Rightarrow> LocalizedComponent \<Rightarrow> bool) \<Rightarrow> library \<Rightarrow> (string \<times> string) list \<Rightarrow> bool" where
  "stored_hold P lib stored \<longleftrightarrow>
     (\<forall>key data. (key, data) \<in> set stored \<longrightarrow>
        (\<exists>component. json_Marshal lib component = Inr data \<and> P key component))"

text \<open>
  A Redis client whose every operation fails, and an artifact, for concrete runs.
\<close>

definition failing_redis :: redis where
  "failing_redis =
     \<lparr>redis_Get = (\<lambda>key. Inl ''dial tcp: connection refused''),
      redis_Set = (\<lambda>key data expiration. Some ''dial tcp: connection refused''),
      redis_Expire = (\<lambda>key expiration. Some ''dial tcp: connection refused'')\<rparr>"

definition demo_artifact :: LocalizedComponent where
  "demo_artifact =
     \<lparr>ComponentName = ''Banner'', ComponentType = ''functional'', Language = ''fr'',
      Template = ''<b>Salut</b>'', LocalizedData = [''title'' \<mapsto> ''Salut''],
      Metadata = \<lparr>ComponentID = ''banner_fr_0'', LastUpdated = ''1970-01-01T00:00:00Z'',
                  RequiredKeys = [''title'']\<rparr>,
      Cached = False\<rparr>"

text \<open>
  A Redis client that answers a read from the given pairs of key and data and accepts every
  write, and a codec that encodes an artifact as its language code and decodes a language
  code to the artifact above in that language, for concrete runs.
\<close>

definition store_redis :: "(string \<times> string) list \<Rightarrow> redis" where
  "store_redis contents =
     \<lparr>redis_Get = (\<lambda>key. case map_of contents key of
                            Some data \<Rightarrow> Inr data
                          | None \<Rightarrow> Inl ''redis: nil''),
      redis_Set = (\<lambda>key data expiration. None),
      redis_Expire = (\<lambda>key expiration. None)\<rparr>"

definition codec_library :: library where
  "codec_library =
     \<lparr>formatRFC3339 = (\<lambda>t. ''1970-01-01T00:00:00Z''),
      json_Marshal = (\<lambda>component. Inr (Language component)),
      json_Unmarshal = (\<lambda>data. Inr (demo_artifact\<lparr>Language := data\<rparr>))\<rparr>"

section \<open>The cache invariant\<close>

lemma NewTTLCache_inv: "cache_inv (NewTTLCache n t)"
  by (simp add: cache_inv_def NewTTLCache_def)

lemma Clear_inv: "cache_inv c \<Longrightarrow> cache_inv (Clear c)"
  by (simp add: cache_inv_def Clear_def)

lemma MoveToBack_set: "set (list_MoveToBack e l) = set l"
  by (auto simp: list_MoveToBack_def)

lemma MoveToBack_distinct: "distinct l \<Longrightarrow> distinct (list_MoveToBack e l)"
  by (auto simp: list_MoveToBack_def distinct_removeAll)

lemma MoveToBack_eq: "distinct l \<Longrightarrow> e \<in> set l \<Longrightarrow> list_MoveToBack e l = removeAll e l @ [e]"
  apply (auto simp: list_MoveToBack_def)
  apply (cases l rule: rev_cases) apply auto
  done

lemma Remove_eq: "list_Remove e l = removeAll e l"
  by (simp add: list_Remove_def)


lemma cache_invI:
  assumes "distinct (lruList c)"
    and "\<And>a. a \<in> set (lruList c) \<Longrightarrow> a < nextElem c"
    and "\<And>k a. cache c k = Some a \<Longrightarrow> a \<in> set (lruList c)"
    and "\<And>k a. cache c k = Some a \<Longrightarrow> \<exists>entry. elems c a = Some entry \<and> ekey entry = k"
    and "\<And>a. a \<in> set (lruList c) \<Longrightarrow> \<exists>entry. elems c a = Some entry \<and> cache c (ekey entry) = Some a"
    and "dom (timestamps c) = dom (cache c)"
  shows "cache_inv c"
  using assms unfolding cache_inv_def by blast

lemma inv_distinct: "cache_inv c \<Longrightarrow> distinct (lruList c)"
  by (simp add: cache_inv_def)

lemma inv_fresh: "cache_inv c \<Longrightarrow> a \<in> set (lruList c) \<Longrightarrow> a < nextElem c"
  by (simp add: cache_inv_def)

lemma inv_cache_in: "cache_inv c \<Longrightarrow> cache c k = Some a \<Longrightarrow> a \<in> set (lruList c)"
  unfolding cache_inv_def by blast

lemma inv_cache_entry:
  "cache_inv c \<Longrightarrow> cache c k = Some a \<Longrightarrow> \<exists>entry. elems c a = Some entry \<and> ekey entry = k"
  unfolding cache_inv_def by blast

lemma inv_list_entry:
  "cache_inv c \<Longrightarrow> a \<in> set (lruList c) \<Longrightarrow>
     \<exists>entry. elems c a = Some entry \<and> cache c (ekey entry) = Some a"
  unfolding cache_inv_def by blast

lemma inv_dom: "cache_inv c \<Longrightarrow> dom (timestamps c) = dom (cache c)"
  by (simp add: cache_inv_def)

lemma inv_cache_inj:
  "cache_inv c \<Longrightarrow> cache c k = Some a \<Longrightarrow> cache c k' = Some a \<Longrightarrow> k = k'"
  using inv_cache_entry[of c k a] inv_cache_entry[of c k' a] by auto

lemma expire_inv:
  assumes inv: "cache_inv c" and hit: "cache c key = Some element"
  shows "cache_inv (c\<lparr>lruList := list_Remove element (lruList c),
                       cache := (cache c)(key := None),
                       timestamps := (timestamps c)(key := None)\<rparr>)"
proof (rule cache_invI)
  let ?c = "c\<lparr>lruList := list_Remove element (lruList c),
                       cache := (cache c)(key := None),
                       timestamps := (timestamps c)(key := None)\<rparr>"
  show "distinct (lruList ?c)" using inv_distinct[OF inv] by (simp add: Remove_eq distinct_removeAll)
  show "\<And>a. a \<in> set (lruList ?c) \<Longrightarrow> a < nextElem ?c"
    using inv_fresh[OF inv] by (simp add: Remove_eq)
  show "\<And>k a. cache ?c k = Some a \<Longrightarrow> a \<in> set (lruList ?c)"
    using inv_cache_in[OF inv] inv_cache_inj[OF inv _ hit]
    by (auto simp: Remove_eq split: if_splits)
  show "\<And>k a. cache ?c k = Some a \<Longrightarrow> \<exists>entry. elems ?c a = Some entry \<and> ekey entry = k"
    using inv_cache_entry[OF inv] by (auto split: if_splits)
  show "\<And>a. a \<in> set (lruList ?c) \<Longrightarrow> \<exists>entry. elems ?c a = Some entry \<and> cache ?c (ekey entry) = Some a"
    using inv_list_entry[OF inv] hit by (fastforce simp: Remove_eq)
  show "dom (timestamps ?c) = dom (cache ?c)"
    using inv_dom[OF inv] by auto
qed

lemma touch_inv:
  assumes inv: "cache_inv c"
  shows "cache_inv (c\<lparr>lruList := list_MoveToBack element (lruList c)\<rparr>)"
  using inv unfolding cache_inv_def
  by (simp add: MoveToBack_set MoveToBack_distinct)

lemma Get_inv: "cache_inv c \<Longrightarrow> cache_inv (snd (Get c now key))"
  by (auto simp: Get_def expire_inv touch_inv split: option.splits)

lemma evict_oldest_inv:
  assumes inv: "cache_inv c"
  shows "cache_inv (evict_oldest c)"
proof (cases "lruList c")
  case Nil
  then show ?thesis using inv by (simp add: evict_oldest_def list_Front_def)
next
  case (Cons oldest rest)
  then obtain entry where e: "elems c oldest = Some entry" "cache c (ekey entry) = Some oldest"
    using inv_list_entry[OF inv, of oldest] by auto
  have "evict_oldest c = c\<lparr>lruList := list_Remove oldest (lruList c),
                 cache := (cache c)(ekey entry := None),
                 timestamps := (timestamps c)(ekey entry := None)\<rparr>"
    using Cons e by (simp add: evict_oldest_def list_Front_def)
  then show ?thesis using expire_inv[OF inv e(2)] by simp
qed

lemma evict_oldest_nextElem: "nextElem (evict_oldest c) = nextElem c"
  by (simp add: evict_oldest_def split: option.splits)

lemma push_inv:
  assumes inv: "cache_inv c" and miss: "cache c key = None"
  shows "cache_inv (c\<lparr>elems := (elems c)(nextElem c \<mapsto> \<lparr>ekey = key, evalue = val\<rparr>),
                 nextElem := Suc (nextElem c),
                 lruList := list_PushBack (nextElem c) (lruList c),
                 cache := (cache c)(key \<mapsto> nextElem c),
                 timestamps := (timestamps c)(key \<mapsto> now)\<rparr>)"
proof (rule cache_invI)
  let ?c = "c\<lparr>elems := (elems c)(nextElem c \<mapsto> \<lparr>ekey = key, evalue = val\<rparr>),
                 nextElem := Suc (nextElem c),
                 lruList := list_PushBack (nextElem c) (lruList c),
                 cache := (cache c)(key \<mapsto> nextElem c),
                 timestamps := (timestamps c)(key \<mapsto> now)\<rparr>"
  have nin: "nextElem c \<notin> set (lruList c)" using inv_fresh[OF inv] by blast
  show "distinct (lruList ?c)" using inv_distinct[OF inv] nin by (simp add: list_PushBack_def)
  show "\<And>a. a \<in> set (lruList ?c) \<Longrightarrow> a < nextElem ?c"
    using inv_fresh[OF inv] by (auto simp add: list_PushBack_def less_Suc_eq)
  show "\<And>k a. cache ?c k = Some a \<Longrightarrow> a \<in> set (lruList ?c)"
    using inv_cache_in[OF inv] by (auto simp: list_PushBack_def split: if_splits)
  show "\<And>k a. cache ?c k = Some a \<Longrightarrow> \<exists>entry. elems ?c a = Some entry \<and> ekey entry = k"
    using inv_cache_entry[OF inv] inv_cache_in[OF inv] nin by (auto split: if_splits)
  show "\<And>a. a \<in> set (lruList ?c) \<Longrightarrow> \<exists>entry. elems ?c a = Some entry \<and> cache ?c (ekey entry) = Some a"
    using inv_list_entry[OF inv] nin miss by (fastforce simp: list_PushBack_def)
  show "dom (timestamps ?c) = dom (cache ?c)"
    using inv_dom[OF inv] by auto
qed

lemma replace_inv:
  assumes inv: "cache_inv c" and hit: "cache c key = Some element"
  shows "cache_inv (c\<lparr>lruList := list_MoveToBack element (lruList c),
            elems := (elems c)(element := map_option (\<lambda>entry. entry\<lparr>evalue := val\<rparr>) (elems c element)),
            timestamps := (timestamps c)(key \<mapsto> now)\<rparr>)"
proof (rule cache_invI)
  let ?c = "c\<lparr>lruList := list_MoveToBack element (lruList c),
            elems := (elems c)(element := map_option (\<lambda>entry. entry\<lparr>evalue := val\<rparr>) (elems c element)),
            timestamps := (timestamps c)(key \<mapsto> now)\<rparr>"
  show "distinct (lruList ?c)" using inv_distinct[OF inv] by (simp add: MoveToBack_distinct)
  show "\<And>a. a \<in> set (lruList ?c) \<Longrightarrow> a < nextElem ?c"
    using inv_fresh[OF inv] by (simp add: MoveToBack_set)
  show "\<And>k a. cache ?c k = Some a \<Longrightarrow> a \<in> set (lruList ?c)"
    using inv_cache_in[OF inv] by (simp add: MoveToBack_set)
  show "\<And>k a. cache ?c k = Some a \<Longrightarrow> \<exists>entry. elems ?c a = Some entry \<and> ekey entry = k"
    using inv_cache_entry[OF inv] by fastforce
  show "\<And>a. a \<in> set (lruList ?c) \<Longrightarrow> \<exists>entry. elems ?c a = Some entry \<and> cache ?c (ekey entry) = Some a"
    using inv_list_entry[OF inv] by (fastforce simp: MoveToBack_set)
  show "dom (timestamps ?c) = dom (cache ?c)"
    using inv_dom[OF inv] hit by auto
qed

lemma evict_oldest_miss:
  "cache c key = None \<Longrightarrow> cache (evict_oldest c) key = None"
  by (simp add: evict_oldest_def split: option.splits)

lemma Put_inv: "cache_inv c \<Longrightarrow> cache_inv (Put c now key val)"
proof (cases "cache c key")
  case (Some element)
  assume "cache_inv c"
  then show ?thesis using Some replace_inv[of c key element] by (simp add: Put_def)
next
  case None
  assume inv: "cache_inv c"
  define c1 where "c1 = (if list_Len (lruList c) \<ge> maxSize c then evict_oldest c else c)"
  have "cache_inv c1" "cache c1 key = None"
    using inv None by (auto simp: c1_def evict_oldest_inv evict_oldest_miss)
  from push_inv[OF this] show ?thesis
    using None by (simp add: Put_def Let_def c1_def[symmetric])
qed

lemma apply_op_inv: "cache_inv c \<Longrightarrow> cache_inv (apply_op c x)"
  by (cases x) (simp_all add: Get_inv Put_inv Clear_inv)

lemma run_ops_inv: "cache_inv c \<Longrightarrow> cache_inv (run_ops c ops)"
  unfolding run_ops_def by (induction ops arbitrary: c) (simp_all add: apply_op_inv)


lemma key_of_frame [simp]:
  "key_of (c\<lparr>lruList := l\<rparr>) = key_of c"
  "key_of (c\<lparr>cache := m\<rparr>) = key_of c"
  "key_of (c\<lparr>timestamps := ts\<rparr>) = key_of c"
  "key_of (c\<lparr>nextElem := n\<rparr>) = key_of c"
  by (simp_all add: key_of_def fun_eq_iff)

lemma lru_keys_alt: "lru_keys c = map (key_of c) (lruList c)"
  by (simp add: lru_keys_def key_of_def)

lemma inv_key_of: "cache_inv c \<Longrightarrow> a \<in> set (lruList c) \<Longrightarrow> cache c (key_of c a) = Some a"
  using inv_list_entry[of c a] by (auto simp: key_of_def)

lemma inv_key_of_cache: "cache_inv c \<Longrightarrow> cache c k = Some a \<Longrightarrow> key_of c a = k"
  using inv_cache_entry[of c k a] by (auto simp: key_of_def)

lemma inv_inj_on: "cache_inv c \<Longrightarrow> inj_on (key_of c) (set (lruList c))"
  by (rule inj_onI) (metis inv_key_of option.inject)

lemma lru_keys_distinct: "cache_inv c \<Longrightarrow> distinct (lru_keys c)"
  by (simp add: lru_keys_alt distinct_map inv_distinct inv_inj_on)

lemma lru_keys_set: "cache_inv c \<Longrightarrow> set (lru_keys c) = dom (cache c)"
proof (intro set_eqI iffI)
  fix k assume inv: "cache_inv c" and "k \<in> set (lru_keys c)"
  then obtain a where "a \<in> set (lruList c)" "k = key_of c a" by (auto simp: lru_keys_alt)
  then show "k \<in> dom (cache c)" using inv_key_of[OF inv] by auto
next
  fix k assume inv: "cache_inv c" and "k \<in> dom (cache c)"
  then obtain a where a: "cache c k = Some a" by auto
  then have "a \<in> set (lruList c)" "key_of c a = k"
    using inv_cache_in[OF inv a] inv_key_of_cache[OF inv a] by auto
  then show "k \<in> set (lru_keys c)" by (auto simp: lru_keys_alt)
qed

lemma Size_keys: "Size c = int (length (lru_keys c))"
  by (simp add: Size_def list_Len_def lru_keys_def)

lemma map_removeAll_inj:
  "inj_on f (insert e (set l)) \<Longrightarrow> map f (removeAll e l) = removeAll (f e) (map f l)"
  by (induction l) (auto simp: inj_on_def)

lemma keys_removeAll:
  assumes inv: "cache_inv c" and hit: "cache c key = Some element"
  shows "map (key_of c) (removeAll element (lruList c)) = removeAll key (lru_keys c)"
proof -
  have "insert element (set (lruList c)) = set (lruList c)"
    using inv_cache_in[OF inv hit] by auto
  then have "inj_on (key_of c) (insert element (set (lruList c)))"
    using inv_inj_on[OF inv] by simp
  from map_removeAll_inj[OF this] show ?thesis
    using inv_key_of_cache[OF inv hit] by (simp add: lru_keys_alt)
qed

lemma keys_MoveToBack:
  assumes inv: "cache_inv c" and hit: "cache c key = Some element"
  shows "map (key_of c) (list_MoveToBack element (lruList c)) = removeAll key (lru_keys c) @ [key]"
  using keys_removeAll[OF inv hit] inv_key_of_cache[OF inv hit]
  by (simp add: MoveToBack_eq[OF inv_distinct[OF inv] inv_cache_in[OF inv hit]])

lemma Get_absent: "cache c key = None \<Longrightarrow> Get c now key = (None, c)"
  by (simp add: Get_def)

lemma Get_expired_keys:
  assumes inv: "cache_inv c" and hit: "cache c key = Some element" and ex: "expired c now key"
  shows "fst (Get c now key) = None"
    and "lru_keys (snd (Get c now key)) = removeAll key (lru_keys c)"
    and "cache (snd (Get c now key)) = (cache c)(key := None)"
  using hit ex keys_removeAll[OF inv hit]
  by (simp_all add: Get_def expired_def lru_keys_alt Remove_eq)

lemma Get_hit_keys:
  assumes inv: "cache_inv c" and hit: "cache c key = Some element" and ex: "\<not> expired c now key"
  shows "fst (Get c now key) = map_option evalue (elems c element)"
    and "lru_keys (snd (Get c now key)) = removeAll key (lru_keys c) @ [key]"
    and "snd (Get c now key) = c\<lparr>lruList := list_MoveToBack element (lruList c)\<rparr>"
  using hit ex keys_MoveToBack[OF inv hit]
  by (simp_all add: Get_def expired_def lru_keys_alt)

lemma Put_existing_keys:
  assumes inv: "cache_inv c" and hit: "cache c key = Some element"
  shows "lru_keys (Put c now key val) = removeAll key (lru_keys c) @ [key]"
proof -
  have "key_of (c\<lparr>lruList := list_MoveToBack element (lruList c),
            elems := (elems c)(element := map_option (\<lambda>entry. entry\<lparr>evalue := val\<rparr>) (elems c element)),
            timestamps := (timestamps c)(key \<mapsto> now)\<rparr>) = key_of c"
    using inv_cache_entry[OF inv hit] by (intro ext) (auto simp: key_of_def)
  then show ?thesis using hit keys_MoveToBack[OF inv hit]
    by (simp add: Put_def lru_keys_alt)
qed

lemma evict_oldest_keys:
  assumes inv: "cache_inv c"
  shows "lru_keys (evict_oldest c) = tl (lru_keys c)"
proof (cases "lruList c")
  case Nil
  then show ?thesis by (simp add: evict_oldest_def list_Front_def lru_keys_def)
next
  case (Cons oldest rest)
  then obtain entry where e: "elems c oldest = Some entry" "cache c (ekey entry) = Some oldest"
    using inv_list_entry[OF inv, of oldest] by auto
  have "oldest \<notin> set rest" using inv_distinct[OF inv] Cons by simp
  then show ?thesis using Cons e
    by (simp add: evict_oldest_def list_Front_def lru_keys_def list_Remove_def)
qed

lemma push_keys:
  assumes inv: "cache_inv c"
  shows "lru_keys (c\<lparr>elems := (elems c)(nextElem c \<mapsto> \<lparr>ekey = key, evalue = val\<rparr>),
                 nextElem := Suc (nextElem c),
                 lruList := list_PushBack (nextElem c) (lruList c),
                 cache := (cache c)(key \<mapsto> nextElem c),
                 timestamps := (timestamps c)(key \<mapsto> now)\<rparr>) = lru_keys c @ [key]"
proof -
  have nin: "nextElem c \<notin> set (lruList c)" using inv_fresh[OF inv] by blast
  then show ?thesis by (auto simp: lru_keys_def list_PushBack_def)
qed

lemma Put_new_keys:
  assumes inv: "cache_inv c" and miss: "cache c key = None"
  shows "lru_keys (Put c now key val) =
           (if Size c \<ge> maxSize c then tl (lru_keys c) else lru_keys c) @ [key]"
proof -
  define c1 where "c1 = (if list_Len (lruList c) \<ge> maxSize c then evict_oldest c else c)"
  have c1: "cache_inv c1" using inv by (auto simp: c1_def evict_oldest_inv)
  have "lru_keys c1 = (if Size c \<ge> maxSize c then tl (lru_keys c) else lru_keys c)"
    by (simp add: c1_def Size_def evict_oldest_keys[OF inv])
  with push_keys[OF c1] show ?thesis
    using miss by (simp add: Put_def Let_def c1_def[symmetric])
qed

section \<open>Size and recency order\<close>

lemma evict_oldest_fields [simp]:
  "maxSize (evict_oldest c) = maxSize c" "ttl (evict_oldest c) = ttl c"
  by (simp_all add: evict_oldest_def split: option.splits)

lemma Get_fields [simp]:
  "maxSize (snd (Get c now key)) = maxSize c" "ttl (snd (Get c now key)) = ttl c"
  by (simp_all add: Get_def split: option.splits)

lemma Put_fields [simp]:
  "maxSize (Put c now key val) = maxSize c" "ttl (Put c now key val) = ttl c"
  by (simp_all add: Put_def Let_def split: option.splits)

lemma apply_op_fields [simp]:
  "maxSize (apply_op c x) = maxSize c" "ttl (apply_op c x) = ttl c"
  by (cases x; simp add: Clear_def)+

lemma run_ops_fields [simp]:
  "maxSize (run_ops c ops) = maxSize c" "ttl (run_ops c ops) = ttl c"
  unfolding run_ops_def by (induction ops arbitrary: c; simp)+

lemma run_ops_snoc: "run_ops c (ops @ [x]) = apply_op (run_ops c ops) x"
  by (simp add: run_ops_def)

lemma run_ops_Nil [simp]: "run_ops c [] = c"
  by (simp add: run_ops_def)

lemma run_ops_Cons [simp]: "run_ops c (x # ops) = run_ops (apply_op c x) ops"
  by (simp add: run_ops_def)

lemma reachable_inv: "cache_inv (run_ops (NewTTLCache n d) ops)"
  by (simp add: run_ops_inv NewTTLCache_inv)

lemma cache_dom_keys: "cache_inv c \<Longrightarrow> cache c key = None \<longleftrightarrow> key \<notin> set (lru_keys c)"
  by (auto simp: lru_keys_set)

lemma Get_Size_le: "cache_inv c \<Longrightarrow> Size (snd (Get c now key)) \<le> Size c"
proof (cases "cache c key")
  case None
  then show ?thesis by (simp add: Get_absent)
next
  case (Some element)
  assume inv: "cache_inv c"
  have k: "key \<in> set (lru_keys c)" using Some lru_keys_set[OF inv] by auto
  have d: "distinct (lru_keys c)" by (rule lru_keys_distinct[OF inv])
  have l: "length (removeAll key (lru_keys c)) = length (lru_keys c) - 1"
    using d k by (simp add: distinct_remove1_removeAll[symmetric] length_remove1)
  show ?thesis
  proof (cases "expired c now key")
    case True
    show ?thesis using Get_expired_keys(2)[OF inv Some True] l by (simp add: Size_keys)
  next
    case False
    have "lru_keys c \<noteq> []" using k by auto
    then show ?thesis using Get_hit_keys(2)[OF inv Some False] l
      by (cases "lru_keys c") (simp_all add: Size_keys)
  qed
qed

lemma Put_Size_le:
  assumes inv: "cache_inv c" and cap: "1 \<le> maxSize c" and le: "Size c \<le> maxSize c"
  shows "Size (Put c now key val) \<le> maxSize c"
proof (cases "cache c key")
  case None
  show ?thesis using Put_new_keys[OF inv None, of now val] cap le
    by (cases "lru_keys c") (auto simp: Size_keys)
next
  case (Some element)
  have k: "key \<in> set (lru_keys c)" using Some lru_keys_set[OF inv] by auto
  have d: "distinct (lru_keys c)" by (rule lru_keys_distinct[OF inv])
  have l: "length (removeAll key (lru_keys c)) = length (lru_keys c) - 1"
    using d k by (simp add: distinct_remove1_removeAll[symmetric] length_remove1)
  have "lru_keys c \<noteq> []" using k by auto
  then show ?thesis using Put_existing_keys[OF inv Some, of now val] l le
    by (cases "lru_keys c") (simp_all add: Size_keys)
qed

lemma apply_op_Size_le:
  assumes inv: "cache_inv c" and cap: "1 \<le> maxSize c" and le: "Size c \<le> maxSize c"
  shows "Size (apply_op c x) \<le> maxSize c"
proof (cases x)
  case (OpGet now key)
  then show ?thesis using Get_Size_le[OF inv, of now key] le by simp
next
  case (OpPut now key val)
  then show ?thesis using Put_Size_le[OF inv cap le] by simp
next
  case OpClear
  then show ?thesis using cap by (simp add: Clear_def Size_def list_Len_def)
qed

lemma run_ops_Size_le:
  assumes "cache_inv c" "1 \<le> maxSize c" "Size c \<le> maxSize c"
  shows "Size (run_ops c ops) \<le> maxSize c"
  using assms
proof (induction ops rule: rev_induct)
  case Nil
  then show ?case by simp
next
  case (snoc x ops)
  have "cache_inv (run_ops c ops)" using snoc.prems(1) by (rule run_ops_inv)
  from apply_op_Size_le[OF this, of x] snoc show ?case
    by (simp add: run_ops_snoc)
qed

lemma put_keys_simps [simp]:
  "put_keys [] = []" "put_keys ((now, key, val) # ps) = key # put_keys ps"
  by (simp_all add: put_keys_def)

lemma put_ops_simps [simp]:
  "put_ops [] = []" "put_ops ((now, key, val) # ps) = OpPut now key val # put_ops ps"
  by (simp_all add: put_ops_def)

lemma puts_fresh_keys:
  assumes "cache_inv c" "1 \<le> maxSize c" "Size c \<le> maxSize c"
    and "distinct (put_keys ps)" "set (put_keys ps) \<inter> set (lru_keys c) = {}"
  shows "lru_keys (run_ops c (put_ops ps)) =
           drop (length (lru_keys c @ put_keys ps) - nat (maxSize c))
                (lru_keys c @ put_keys ps)"
  using assms
proof (induction ps arbitrary: c)
  case Nil
  then show ?case by (simp add: Size_keys)
next
  case (Cons p ps)
  obtain now key val where p: "p = (now, key, val)" by (cases p)
  let ?c = "Put c now key val"
  have miss: "cache c key = None"
    using Cons.prems(1,5) p by (auto simp: cache_dom_keys)
  have keys: "lru_keys ?c = (if Size c \<ge> maxSize c then tl (lru_keys c) else lru_keys c) @ [key]"
    by (rule Put_new_keys[OF Cons.prems(1) miss])
  have inv': "cache_inv ?c" by (rule Put_inv[OF Cons.prems(1)])
  have sz': "Size ?c \<le> maxSize ?c" using Put_Size_le[OF Cons.prems(1-3)] by simp
  have dis: "set (put_keys ps) \<inter> set (lru_keys ?c) = {}"
  proof -
    have "set (lru_keys ?c) \<subseteq> insert key (set (lru_keys c))"
      using keys by (cases "lru_keys c") auto
    then show ?thesis using Cons.prems(4,5) p by auto
  qed
  have ih: "lru_keys (run_ops ?c (put_ops ps)) =
           drop (length (lru_keys ?c @ put_keys ps) - nat (maxSize ?c))
                (lru_keys ?c @ put_keys ps)"
  proof -
    have "distinct (put_keys ps)" using Cons.prems(4) p by simp
    moreover have "1 \<le> maxSize ?c" using Cons.prems(2) by simp
    ultimately show ?thesis using Cons.IH[OF inv' _ sz' _ dis] by blast
  qed
  show ?case
  proof (cases "Size c \<ge> maxSize c")
    case True
    then have full: "length (lru_keys c) = nat (maxSize c)"
      using Cons.prems(2,3) by (simp add: Size_keys)
    then obtain k0 ks where ks: "lru_keys c = k0 # ks" using Cons.prems(2)
      by (cases "lru_keys c") auto
    let ?n = "length (put_keys ps)"
    have m: "nat (maxSize c) = Suc (length ks)" using full ks by simp
    have "lru_keys (run_ops ?c (put_ops ps)) = drop ?n (ks @ key # put_keys ps)"
      using ih keys True ks m by simp
    then show ?thesis using ks p m by simp
  next
    case False
    then have "length (lru_keys c) < nat (maxSize c)"
      by (simp add: Size_keys)
    then show ?thesis using ih keys p False
      by simp
  qed
qed

lemma length_removeAll_distinct:
  "distinct xs \<Longrightarrow> x \<in> set xs \<Longrightarrow> length (removeAll x xs) = length xs - 1"
  by (simp add: distinct_remove1_removeAll[symmetric] length_remove1)

lemma reachable_Size_le:
  "1 \<le> N \<Longrightarrow> Size (run_ops (NewTTLCache N d) ops) \<le> N"
  using run_ops_Size_le[of "NewTTLCache N d" ops]
  by (simp add: NewTTLCache_inv) (simp add: NewTTLCache_def Size_def list_Len_def)

lemma Put_new_dom:
  assumes inv: "cache_inv c" and miss: "cache c key = None" and full: "maxSize c \<le> Size c"
    and ne: "lru_keys c \<noteq> []"
  shows "dom (cache (Put c now key val)) = insert key (dom (cache c) - {hd (lru_keys c)})"
proof -
  have d: "distinct (lru_keys c)" by (rule lru_keys_distinct[OF inv])
  obtain k0 ks where ks: "lru_keys c = k0 # ks" using ne by (cases "lru_keys c") auto
  have "set (lru_keys (Put c now key val)) = insert key (set ks)"
    using Put_new_keys[OF inv miss, of now val] full ks by simp
  moreover have "set ks = set (lru_keys c) - {k0}" using d ks by auto
  ultimately have "set (lru_keys (Put c now key val)) = insert key (set (lru_keys c) - {k0})"
    by simp
  then have "dom (cache (Put c now key val)) = insert key (dom (cache c) - {k0})"
    unfolding lru_keys_set[OF inv] lru_keys_set[OF Put_inv[OF inv]] .
  then show ?thesis unfolding ks by simp
qed

lemmas cache_eval = Put_def Get_def NewTTLCache_def list_Len_def list_PushBack_def Let_def
  Size_def evict_oldest_def list_Front_def list_Remove_def list_MoveToBack_def lru_keys_def

text \<open>
  Claim C2, amended to capacities of at least one. In every state the cache reaches from
  \<^verbatim>\<open>NewTTLCache(N, d)\<close> by \<^verbatim>\<open>Get\<close>, \<^verbatim>\<open>Put\<close> and \<^verbatim>\<open>Clear\<close>, \<^verbatim>\<open>Size()\<close> is at most \<open>N\<close>. A
  \<^verbatim>\<open>Put\<close> of a new key into a cache that holds \<open>N\<close> entries removes exactly the front of the
  recency order (the least recently used key) and appends the new key, so the size stays
  \<open>N\<close>. After \<open>N + 1\<close> insertions of distinct keys into a new cache the size is \<open>N\<close>, the
  first key inserted is absent (a \<^verbatim>\<open>Get\<close> misses it) and the other keys are kept in order.
\<close>

theorem TTLCache_capacity:
  fixes ops :: "'v cache_op list" and ps :: "(time \<times> string \<times> 'v) list"
  assumes cap: "1 \<le> N"
  shows "Size (run_ops (NewTTLCache N d) ops) \<le> N \<and>
         (cache (run_ops (NewTTLCache N d) ops) key = None \<and>
          N \<le> Size (run_ops (NewTTLCache N d) ops) \<longrightarrow>
            lru_keys (Put (run_ops (NewTTLCache N d) ops) now key val) =
              tl (lru_keys (run_ops (NewTTLCache N d) ops)) @ [key] \<and>
            dom (cache (Put (run_ops (NewTTLCache N d) ops) now key val)) =
              insert key (dom (cache (run_ops (NewTTLCache N d) ops)) -
                            {hd (lru_keys (run_ops (NewTTLCache N d) ops))}) \<and>
            Size (Put (run_ops (NewTTLCache N d) ops) now key val) = N) \<and>
         (distinct (put_keys ps) \<and> int (length ps) = N + 1 \<longrightarrow>
            Size (run_ops (NewTTLCache N d) (put_ops ps)) = N \<and>
            lru_keys (run_ops (NewTTLCache N d) (put_ops ps)) = tl (put_keys ps) \<and>
            cache (run_ops (NewTTLCache N d) (put_ops ps)) (hd (put_keys ps)) = None \<and>
            fst (Get (run_ops (NewTTLCache N d) (put_ops ps)) now (hd (put_keys ps))) = None)"
proof (intro conjI impI)
  let ?c = "run_ops (NewTTLCache N d) ops"
  have inv: "cache_inv ?c" by (rule reachable_inv)
  have mx: "maxSize ?c = N" by (simp add: NewTTLCache_def)
  show le: "Size ?c \<le> N" by (rule reachable_Size_le[OF cap])
  {
    assume h: "cache ?c key = None \<and> N \<le> Size ?c"
    then have miss: "cache ?c key = None" and full: "maxSize ?c \<le> Size ?c" using mx by auto
    have ne: "lru_keys ?c \<noteq> []" using full cap mx by (auto simp: Size_keys)
    show keys: "lru_keys (Put ?c now key val) = tl (lru_keys ?c) @ [key]"
      using Put_new_keys[OF inv miss, of now val] full by simp
    show "dom (cache (Put ?c now key val)) = insert key (dom (cache ?c) - {hd (lru_keys ?c)})"
      by (rule Put_new_dom[OF inv miss full ne])
    have "Size ?c = N" using le full mx by simp
    then show "Size (Put ?c now key val) = N"
      using keys ne by (cases "lru_keys ?c") (simp_all add: Size_keys)
  }
  let ?p = "run_ops (NewTTLCache N d) (put_ops ps)"
  let ?e = "NewTTLCache N d :: 'v TTLCache"
  {
    assume h: "distinct (put_keys ps) \<and> int (length ps) = N + 1"
    have e: "lru_keys ?e = []" "maxSize ?e = N" "Size ?e = 0"
      by (simp_all add: NewTTLCache_def lru_keys_def Size_def list_Len_def)
    have "length ps = Suc (nat N)" using h cap by linarith
    then have len: "length (put_keys ps) = Suc (nat N)" by (simp add: put_keys_def)
    have "lru_keys ?p = drop (length (lru_keys ?e @ put_keys ps) - nat (maxSize ?e))
                (lru_keys ?e @ put_keys ps)"
      using h cap e by (intro puts_fresh_keys) (simp_all add: NewTTLCache_inv)
    then have "lru_keys ?p = drop 1 (put_keys ps)" using e len by simp
    then show keys: "lru_keys ?p = tl (put_keys ps)" by (simp add: drop_Suc)
    then show "Size ?p = N" using len cap by (simp add: Size_keys)
    have "hd (put_keys ps) \<notin> set (tl (put_keys ps))"
      using h len by (cases "put_keys ps") auto
    then show miss: "cache ?p (hd (put_keys ps)) = None"
      using keys cache_dom_keys[OF reachable_inv, of N d "put_ops ps" "hd (put_keys ps)"] by simp
    then show "fst (Get ?p now (hd (put_keys ps))) = None" by (simp add: Get_absent)
  }
qed

theorem TTLCache_capacity_witness:
  "(1::int) \<le> 2 \<and>
   Size (run_ops (NewTTLCache 2 CacheTTL) [OpPut 5 ''x'' (0::nat), OpPut 6 ''z'' 0]) \<le> 2 \<and>
   cache (run_ops (NewTTLCache 2 CacheTTL) [OpPut 5 ''x'' (0::nat), OpPut 6 ''z'' 0]) ''y'' = None \<and>
   2 \<le> Size (run_ops (NewTTLCache 2 CacheTTL) [OpPut 5 ''x'' (0::nat), OpPut 6 ''z'' 0]) \<and>
   lru_keys (run_ops (NewTTLCache 2 CacheTTL) [OpPut 5 ''x'' (0::nat), OpPut 6 ''z'' 0]) = [''x'', ''z''] \<and>
   lru_keys (Put (run_ops (NewTTLCache 2 CacheTTL) [OpPut 5 ''x'' (0::nat), OpPut 6 ''z'' 0]) 7 ''y'' 1)
     = [''z'', ''y''] \<and>
   Size (Put (run_ops (NewTTLCache 2 CacheTTL) [OpPut 5 ''x'' (0::nat), OpPut 6 ''z'' 0]) 7 ''y'' 1) = 2 \<and>
   distinct (put_keys [(10, ''a'', 1::nat), (20, ''b'', 2), (30, ''c'', 3)]) \<and>
   int (length [(10::int, ''a'', 1::nat), (20, ''b'', 2), (30, ''c'', 3)]) = 2 + 1 \<and>
   Size (run_ops (NewTTLCache 2 CacheTTL) (put_ops [(10, ''a'', 1::nat), (20, ''b'', 2), (30, ''c'', 3)])) = 2 \<and>
   lru_keys (run_ops (NewTTLCache 2 CacheTTL) (put_ops [(10, ''a'', 1::nat), (20, ''b'', 2), (30, ''c'', 3)])) = [''b'', ''c''] \<and>
   cache (run_ops (NewTTLCache 2 CacheTTL) (put_ops [(10, ''a'', 1::nat), (20, ''b'', 2), (30, ''c'', 3)])) ''a'' = None"
proof -
  let ?c = "run_ops (NewTTLCache 2 CacheTTL) [OpPut 5 ''x'' (0::nat), OpPut 6 ''z'' 0]"
  have h: "cache ?c ''y'' = None" "2 \<le> Size ?c" "lru_keys ?c = [''x'', ''z'']"
    by (simp_all add: cache_eval)
  note th = TTLCache_capacity[where N = 2 and d = CacheTTL
          and ops = "[OpPut 5 ''x'' (0::nat), OpPut 6 ''z'' 0]" and key = "''y''" and now = 7 and val = 1
          and ps = "[(10, ''a'', 1::nat), (20, ''b'', 2), (30, ''c'', 3)]"]
  show ?thesis using th h by simp
qed

text \<open>
  With capacity 0 the guard \<^verbatim>\<open>oldest != nil\<close> skips the eviction on the empty list, and the
  insertion goes ahead: the cache of capacity 0 holds one entry.
\<close>

theorem TTLCache_capacity_zero_counterexample:
  "\<not> Size (run_ops (NewTTLCache 0 CacheTTL) [OpPut 0 ''a'' (1::nat)]) \<le> 0"
  by (simp add: Put_def NewTTLCache_def Size_def list_Len_def list_PushBack_def
        evict_oldest_def list_Front_def)

section \<open>Lazy expiry\<close>

lemma Get_other_cache:
  "key' \<noteq> key \<Longrightarrow> cache (snd (Get c now key')) key = cache c key"
  by (simp add: Get_def split: option.splits)

lemma Get_other_keys:
  assumes inv: "cache_inv c" and ne: "key' \<noteq> key" and k: "key \<in> set (lru_keys c)"
  shows "key \<in> set (lru_keys (snd (Get c now key')))"
  using lru_keys_set[OF inv] lru_keys_set[OF Get_inv[OF inv, of now key']]
        Get_other_cache[OF ne, of c now] k
  by (auto simp: dom_def)

text \<open>
  Claim C3. In every state the cache reaches, a \<^verbatim>\<open>Get\<close> of a key whose entry is older than
  the TTL reports not found and removes the entry: the key leaves the map and the recency
  list, and \<^verbatim>\<open>Size()\<close> drops by one. Until that access the entry is one of the entries
  \<^verbatim>\<open>Size()\<close> counts, and a \<^verbatim>\<open>Get\<close> of any other key, at any time, leaves it in the cache:
  nothing but an access to the key itself enforces its expiry.
\<close>

theorem TTLCache_lazy_expiry:
  fixes ops :: "'v cache_op list"
  assumes hit: "cache (run_ops (NewTTLCache N d) ops) key = Some element"
    and ts: "timestamps (run_ops (NewTTLCache N d) ops) key = Some inserted"
    and old: "now - inserted > d"
  shows "fst (Get (run_ops (NewTTLCache N d) ops) now key) = None \<and>
         Size (snd (Get (run_ops (NewTTLCache N d) ops) now key)) =
           Size (run_ops (NewTTLCache N d) ops) - 1 \<and>
         cache (snd (Get (run_ops (NewTTLCache N d) ops) now key)) key = None \<and>
         key \<notin> set (lru_keys (snd (Get (run_ops (NewTTLCache N d) ops) now key))) \<and>
         key \<in> set (lru_keys (run_ops (NewTTLCache N d) ops)) \<and>
         Size (run_ops (NewTTLCache N d) ops) = int (length (lru_keys (run_ops (NewTTLCache N d) ops))) \<and>
         (key' \<noteq> key \<longrightarrow>
            cache (snd (Get (run_ops (NewTTLCache N d) ops) now key')) key = Some element \<and>
            key \<in> set (lru_keys (snd (Get (run_ops (NewTTLCache N d) ops) now key'))))"
proof -
  let ?c = "run_ops (NewTTLCache N d) ops"
  have inv: "cache_inv ?c" by (rule reachable_inv)
  have ex: "expired ?c now key" using ts old by (simp add: expired_def NewTTLCache_def)
  have k: "key \<in> set (lru_keys ?c)" using hit lru_keys_set[OF inv] by auto
  have d: "distinct (lru_keys ?c)" by (rule lru_keys_distinct[OF inv])
  note g = Get_expired_keys[OF inv hit ex]
  have "Size (snd (Get ?c now key)) = Size ?c - 1"
    using g(2) length_removeAll_distinct[OF d k] k
    by (cases "lru_keys ?c") (simp_all add: Size_keys)
  moreover have "key \<notin> set (lru_keys (snd (Get ?c now key)))" using g(2) by simp
  moreover have "cache (snd (Get ?c now key)) key = None" using g(3) by simp
  moreover have "key' \<noteq> key \<longrightarrow>
            cache (snd (Get ?c now key')) key = Some element \<and>
            key \<in> set (lru_keys (snd (Get ?c now key')))"
    using Get_other_cache[of key' key ?c now] Get_other_keys[OF inv _ k, of key' now] hit by simp
  ultimately show ?thesis using g(1) k by (simp add: Size_keys)
qed

theorem TTLCache_lazy_expiry_witness:
  "cache (run_ops (NewTTLCache 50 CacheTTL) [OpPut 0 ''k'' (7::nat), OpPut 5 ''j'' 8]) ''k'' = Some 0 \<and>
   timestamps (run_ops (NewTTLCache 50 CacheTTL) [OpPut 0 ''k'' (7::nat), OpPut 5 ''j'' 8]) ''k'' = Some 0 \<and>
   CacheTTL + 1 - 0 > CacheTTL \<and>
   fst (Get (run_ops (NewTTLCache 50 CacheTTL) [OpPut 0 ''k'' (7::nat), OpPut 5 ''j'' 8]) (CacheTTL + 1) ''k'') = None \<and>
   Size (run_ops (NewTTLCache 50 CacheTTL) [OpPut 0 ''k'' (7::nat), OpPut 5 ''j'' 8]) = 2 \<and>
   Size (snd (Get (run_ops (NewTTLCache 50 CacheTTL) [OpPut 0 ''k'' (7::nat), OpPut 5 ''j'' 8]) (CacheTTL + 1) ''k'')) = 1 \<and>
   cache (snd (Get (run_ops (NewTTLCache 50 CacheTTL) [OpPut 0 ''k'' (7::nat), OpPut 5 ''j'' 8]) (CacheTTL + 1) ''j'')) ''k'' = Some 0"
proof -
  have h1: "cache (run_ops (NewTTLCache 50 CacheTTL) [OpPut 0 ''k'' (7::nat), OpPut 5 ''j'' 8]) ''k'' = Some 0"
    by (simp add: Put_def NewTTLCache_def list_Len_def list_PushBack_def Let_def)
  have h2: "timestamps (run_ops (NewTTLCache 50 CacheTTL) [OpPut 0 ''k'' (7::nat), OpPut 5 ''j'' 8]) ''k'' = Some 0"
    by (simp add: Put_def NewTTLCache_def list_Len_def list_PushBack_def Let_def)
  have h3: "CacheTTL + 1 - 0 > CacheTTL" by simp
  have sz: "Size (run_ops (NewTTLCache 50 CacheTTL) [OpPut 0 ''k'' (7::nat), OpPut 5 ''j'' 8]) = 2"
    by (simp add: Put_def NewTTLCache_def list_Len_def list_PushBack_def Let_def Size_def)
  show ?thesis
    using TTLCache_lazy_expiry[OF h1 h2 h3, of "''j''"] h1 h2 sz by simp
qed

section \<open>Recency\<close>

text \<open>
  Claim C8, amended to capacity 3. In a cache of capacity 3, inserting three distinct keys
  \<open>ka\<close>, \<open>kb\<close>, \<open>kc\<close>, reading \<open>ka\<close> before its entry expires and inserting a fourth key \<open>kd\<close>
  leaves \<open>kc\<close>, \<open>ka\<close>, \<open>kd\<close> in this recency order: \<open>kb\<close> is evicted and \<open>ka\<close> is kept. In
  general, in every reachable state a \<^verbatim>\<open>Get\<close> hit moves its key to the most recently used end
  of the recency order, and a \<^verbatim>\<open>Put\<close> of a new key into a full cache removes the key at the
  least recently used end.
\<close>

theorem TTLCache_recency:
  fixes ops :: "'v cache_op list"
  assumes keys: "distinct [ka, kb, kc, kd]" and fresh: "tg - ta \<le> d"
  shows "fst (Get (run_ops (NewTTLCache 3 d) [OpPut ta ka va, OpPut tb kb vb, OpPut tc kc vc]) tg ka)
           = Some va \<and>
         lru_keys (run_ops (NewTTLCache 3 d)
            [OpPut ta ka va, OpPut tb kb vb, OpPut tc kc vc, OpGet tg ka, OpPut td kd vd])
           = [kc, ka, kd] \<and>
         cache (run_ops (NewTTLCache 3 d)
            [OpPut ta ka va, OpPut tb kb vb, OpPut tc kc vc, OpGet tg ka, OpPut td kd vd]) kb = None \<and>
         cache (run_ops (NewTTLCache 3 d)
            [OpPut ta ka va, OpPut tb kb vb, OpPut tc kc vc, OpGet tg ka, OpPut td kd vd]) ka \<noteq> None \<and>
         (cache (run_ops (NewTTLCache N d) ops) key = Some element \<and>
          timestamps (run_ops (NewTTLCache N d) ops) key = Some inserted \<and> now - inserted \<le> d \<longrightarrow>
            fst (Get (run_ops (NewTTLCache N d) ops) now key) \<noteq> None \<and>
            lru_keys (snd (Get (run_ops (NewTTLCache N d) ops) now key)) =
              removeAll key (lru_keys (run_ops (NewTTLCache N d) ops)) @ [key]) \<and>
         (1 \<le> N \<and> cache (run_ops (NewTTLCache N d) ops) key' = None \<and>
          N \<le> Size (run_ops (NewTTLCache N d) ops) \<longrightarrow>
            lru_keys (Put (run_ops (NewTTLCache N d) ops) now' key' val) =
              tl (lru_keys (run_ops (NewTTLCache N d) ops)) @ [key'])"
proof (intro conjI impI)
  let ?c = "run_ops (NewTTLCache N d) ops"
  have inv: "cache_inv ?c" by (rule reachable_inv)
  have ne: "ka \<noteq> kb" "ka \<noteq> kc" "ka \<noteq> kd" "kb \<noteq> kc" "kb \<noteq> kd" "kc \<noteq> kd"
           "kb \<noteq> ka" "kc \<noteq> ka" "kd \<noteq> ka" "kc \<noteq> kb" "kd \<noteq> kb" "kd \<noteq> kc"
    using keys by auto
  show "fst (Get (run_ops (NewTTLCache 3 d) [OpPut ta ka va, OpPut tb kb vb, OpPut tc kc vc]) tg ka)
           = Some va"
    using ne fresh by (simp add: cache_eval)
  show "lru_keys (run_ops (NewTTLCache 3 d)
            [OpPut ta ka va, OpPut tb kb vb, OpPut tc kc vc, OpGet tg ka, OpPut td kd vd])
           = [kc, ka, kd]"
    using ne fresh by (simp add: cache_eval)
  show "cache (run_ops (NewTTLCache 3 d)
            [OpPut ta ka va, OpPut tb kb vb, OpPut tc kc vc, OpGet tg ka, OpPut td kd vd]) kb = None"
    using ne fresh by (simp add: cache_eval)
  show "cache (run_ops (NewTTLCache 3 d)
            [OpPut ta ka va, OpPut tb kb vb, OpPut tc kc vc, OpGet tg ka, OpPut td kd vd]) ka \<noteq> None"
    using ne fresh by (simp add: cache_eval)
  {
    assume h: "cache ?c key = Some element \<and> timestamps ?c key = Some inserted \<and> now - inserted \<le> d"
    then have hit: "cache ?c key = Some element" and ne: "\<not> expired ?c now key"
      by (simp_all add: expired_def NewTTLCache_def)
    obtain entry where "elems ?c element = Some entry"
      using inv_cache_entry[OF inv hit] by auto
    then show "fst (Get ?c now key) \<noteq> None"
      using Get_hit_keys(1)[OF inv hit ne] by simp
    show "lru_keys (snd (Get ?c now key)) = removeAll key (lru_keys ?c) @ [key]"
      by (rule Get_hit_keys(2)[OF inv hit ne])
  }
  {
    assume h: "1 \<le> N \<and> cache ?c key' = None \<and> N \<le> Size ?c"
    then have miss: "cache ?c key' = None" and full: "maxSize ?c \<le> Size ?c"
      by (simp_all add: NewTTLCache_def)
    show "lru_keys (Put ?c now' key' val) = tl (lru_keys ?c) @ [key']"
      using Put_new_keys[OF inv miss, of now' val] full by simp
  }
qed

theorem TTLCache_recency_witness:
  "distinct [''a'', ''b'', ''c'', ''d''] \<and> (3::int) - 0 \<le> CacheTTL \<and>
   fst (Get (run_ops (NewTTLCache 3 CacheTTL)
          [OpPut 0 ''a'' (1::nat), OpPut 1 ''b'' 2, OpPut 2 ''c'' 3]) 3 ''a'') = Some 1 \<and>
   lru_keys (run_ops (NewTTLCache 3 CacheTTL)
          [OpPut 0 ''a'' (1::nat), OpPut 1 ''b'' 2, OpPut 2 ''c'' 3, OpGet 3 ''a'', OpPut 4 ''d'' 4])
     = [''c'', ''a'', ''d''] \<and>
   cache (run_ops (NewTTLCache 3 CacheTTL)
          [OpPut 0 ''a'' (1::nat), OpPut 1 ''b'' 2, OpPut 2 ''c'' 3, OpGet 3 ''a'', OpPut 4 ''d'' 4])
     ''b'' = None \<and>
   cache (run_ops (NewTTLCache 3 CacheTTL)
          [OpPut 0 ''a'' (1::nat), OpPut 1 ''b'' 2, OpPut 2 ''c'' 3]) ''a'' = Some 0 \<and>
   timestamps (run_ops (NewTTLCache 3 CacheTTL)
          [OpPut 0 ''a'' (1::nat), OpPut 1 ''b'' 2, OpPut 2 ''c'' 3]) ''a'' = Some 0 \<and>
   lru_keys (run_ops (NewTTLCache 3 CacheTTL)
          [OpPut 0 ''a'' (1::nat), OpPut 1 ''b'' 2, OpPut 2 ''c'' 3]) = [''a'', ''b'', ''c''] \<and>
   lru_keys (snd (Get (run_ops (NewTTLCache 3 CacheTTL)
          [OpPut 0 ''a'' (1::nat), OpPut 1 ''b'' 2, OpPut 2 ''c'' 3]) 3 ''a'')) = [''b'', ''c'', ''a''] \<and>
   (1::int) \<le> 3 \<and>
   cache (run_ops (NewTTLCache 3 CacheTTL)
          [OpPut 0 ''a'' (1::nat), OpPut 1 ''b'' 2, OpPut 2 ''c'' 3]) ''d'' = None \<and>
   3 \<le> Size (run_ops (NewTTLCache 3 CacheTTL)
          [OpPut 0 ''a'' (1::nat), OpPut 1 ''b'' 2, OpPut 2 ''c'' 3]) \<and>
   lru_keys (Put (run_ops (NewTTLCache 3 CacheTTL)
          [OpPut 0 ''a'' (1::nat), OpPut 1 ''b'' 2, OpPut 2 ''c'' 3]) 4 ''d'' 4) = [''b'', ''c'', ''d'']"
proof -
  let ?c = "run_ops (NewTTLCache 3 CacheTTL) [OpPut 0 ''a'' (1::nat), OpPut 1 ''b'' 2, OpPut 2 ''c'' 3]"
  have h1: "distinct [''a'', ''b'', ''c'', ''d'']" by simp
  have h2: "(3::int) - 0 \<le> CacheTTL" by (simp add: CacheTTL_def Minute_def Second_def)
  have h: "cache ?c ''a'' = Some 0" "timestamps ?c ''a'' = Some 0" "lru_keys ?c = [''a'', ''b'', ''c'']"
    "cache ?c ''d'' = None" "3 \<le> Size ?c"
    by (simp_all add: cache_eval)
  note th = TTLCache_recency[OF h1 h2, where va = "1::nat" and vb = 2 and vc = 3 and vd = 4
        and tb = 1 and tc = 2 and td = 4 and N = 3
        and ops = "[OpPut 0 ''a'' (1::nat), OpPut 1 ''b'' 2, OpPut 2 ''c'' 3]"
        and key = "''a''" and element = 0 and inserted = 0 and now = 3
        and key' = "''d''" and now' = 4 and val = 4]
  from th h h2 have a: "lru_keys (snd (Get ?c 3 ''a'')) = [''b'', ''c'', ''a'']" by simp
  from th h have b: "lru_keys (Put ?c 4 ''d'' 4) = [''b'', ''c'', ''d'']" by simp
  from th have c: "fst (Get ?c 3 ''a'') = Some 1"
    "lru_keys (run_ops (NewTTLCache 3 CacheTTL)
          [OpPut 0 ''a'' (1::nat), OpPut 1 ''b'' 2, OpPut 2 ''c'' 3, OpGet 3 ''a'', OpPut 4 ''d'' 4])
     = [''c'', ''a'', ''d'']"
    "cache (run_ops (NewTTLCache 3 CacheTTL)
          [OpPut 0 ''a'' (1::nat), OpPut 1 ''b'' 2, OpPut 2 ''c'' 3, OpGet 3 ''a'', OpPut 4 ''d'' 4])
     ''b'' = None"
    by blast+
  show ?thesis using h1 h2 h a b c by (intro conjI) simp_all
qed

text \<open>
  In a cache of capacity 2 the scenario runs differently: the insertion of \<open>c\<close> already
  evicts \<open>a\<close>, so the \<^verbatim>\<open>Get\<close> of \<open>a\<close> is a miss and \<open>a\<close> is absent at the end.
\<close>

theorem TTLCache_recency_capacity2_counterexample:
  "fst (Get (run_ops (NewTTLCache 2 CacheTTL)
          [OpPut 0 ''a'' (1::nat), OpPut 1 ''b'' 2, OpPut 2 ''c'' 3]) 3 ''a'') = None \<and>
   lru_keys (run_ops (NewTTLCache 2 CacheTTL)
          [OpPut 0 ''a'' (1::nat), OpPut 1 ''b'' 2, OpPut 2 ''c'' 3, OpGet 3 ''a'', OpPut 4 ''d'' 4])
     = [''c'', ''d''] \<and>
   cache (run_ops (NewTTLCache 2 CacheTTL)
          [OpPut 0 ''a'' (1::nat), OpPut 1 ''b'' 2, OpPut 2 ''c'' 3, OpGet 3 ''a'', OpPut 4 ''d'' 4])
     ''a'' = None"
  by (simp add: cache_eval)

section \<open>Interpolation\<close>

lemma brace_not_key_char [simp]: "\<not> is_key_char (CHR ''{'')" "\<not> is_key_char (CHR ''}'')"
  by (simp_all add: is_key_char_def)

lemma match_needs_brace: "c \<noteq> CHR ''{'' \<Longrightarrow> match_l10nPattern (c # cs) = None"
  by (simp add: match_l10nPattern_def)

lemma takeWhile_stop:
  "\<not> P y \<Longrightarrow> takeWhile P (xs @ y # ys) = takeWhile P xs"
  by (induction xs) auto

lemma dropWhile_stop:
  "\<not> P y \<Longrightarrow> dropWhile P (xs @ y # ys) = dropWhile P xs @ y # ys"
  by (induction xs) auto

lemma match_marker:
  assumes "key \<noteq> []" and "\<forall>c \<in> set key. is_key_char c"
  shows "match_l10nPattern (marker key @ post) = Some (marker key, post)"
proof -
  have t: "takeWhile is_key_char (key @ CHR ''}'' # post) = key"
    using assms(2) by (simp add: takeWhile_stop)
  have d: "dropWhile is_key_char (key @ CHR ''}'' # post) = CHR ''}'' # post"
    using assms(2) by (simp add: dropWhile_stop)
  have l: "6 + length key + 1 = length (marker key)" by (simp add: marker_def)
  have tk: "take (6 + length key + 1) (marker key @ post) = marker key"
    unfolding l by simp
  have p6: "take 6 (marker key @ post) = ''{l10n.''" "drop 6 (marker key @ post) = key @ CHR ''}'' # post"
    by (simp_all add: marker_def)
  show ?thesis using assms(1) t d tk p6
    by (simp add: match_l10nPattern_def)
qed

lemma match_bad_marker:
  assumes bad: "\<exists>c \<in> set key. \<not> is_key_char c" and nb: "CHR ''}'' \<notin> set key"
  shows "match_l10nPattern (marker key @ post) = None"
proof -
  from bad obtain k1 c k2 where k: "key = k1 @ c # k2" "\<forall>x \<in> set k1. is_key_char x" "\<not> is_key_char c"
    using split_list_first_prop[of key "\<lambda>c. \<not> is_key_char c"] by auto
  have c: "c \<noteq> CHR ''}''" using nb k(1) by auto
  have d: "dropWhile is_key_char (key @ CHR ''}'' # post) = c # k2 @ CHR ''}'' # post"
    using k by (simp add: dropWhile_append3)
  have p6: "take 6 (marker key @ post) = ''{l10n.''" "drop 6 (marker key @ post) = key @ CHR ''}'' # post"
    by (simp_all add: marker_def)
  show ?thesis using d c p6
    by (simp add: match_l10nPattern_def)
qed

lemma match_append_brace:
  assumes ne: "pre \<noteq> []"
  shows "match_l10nPattern (pre @ CHR ''{'' # t) =
           map_option (\<lambda>(m, r). (m, r @ CHR ''{'' # t)) (match_l10nPattern pre)"
proof (cases "length pre < 6")
  case True
  have a: "take 6 pre \<noteq> ''{l10n.''" using True by (auto dest: arg_cong[where f = length])
  have "take 6 (pre @ CHR ''{'' # t) ! length pre = (pre @ CHR ''{'' # t) ! length pre"
    using True by (rule nth_take)
  then have n: "take 6 (pre @ CHR ''{'' # t) ! length pre = CHR ''{''"
    by (simp only: nth_append_length)
  have "0 < length pre" using ne by simp
  then have "length pre = 1 \<or> length pre = 2 \<or> length pre = 3 \<or> length pre = 4 \<or> length pre = 5"
    using True by arith
  then have "''{l10n.'' ! length pre \<noteq> CHR ''{''" by auto
  then have b: "take 6 (pre @ CHR ''{'' # t) \<noteq> ''{l10n.''"
    using n by metis
  show ?thesis using a b by (simp add: match_l10nPattern_def)
next
  case False
  let ?xs = "drop 6 pre"
  have p: "take 6 (pre @ CHR ''{'' # t) = take 6 pre"
          "drop 6 (pre @ CHR ''{'' # t) = ?xs @ CHR ''{'' # t"
    using False by simp_all
  have tw: "takeWhile is_key_char (?xs @ CHR ''{'' # t) = takeWhile is_key_char ?xs"
    by (simp add: takeWhile_stop)
  have dw: "dropWhile is_key_char (?xs @ CHR ''{'' # t) = dropWhile is_key_char ?xs @ CHR ''{'' # t"
    by (simp add: dropWhile_stop)
  show ?thesis
  proof (cases "dropWhile is_key_char ?xs")
    case Nil
    have a: "take 1 (dropWhile is_key_char ?xs @ CHR ''{'' # t) \<noteq> ''}''"
      and b: "take 1 (dropWhile is_key_char ?xs) \<noteq> ''}''"
      unfolding Nil by simp_all
    show ?thesis
      unfolding match_l10nPattern_def Let_def p tw dw using a b by simp
  next
    case (Cons y ys)
    have "length (takeWhile is_key_char ?xs) + length (dropWhile is_key_char ?xs) = length ?xs"
      by (metis length_append takeWhile_dropWhile_id)
    then have "6 + length (takeWhile is_key_char ?xs) + 1 \<le> length pre"
      using Cons False by simp
    then have "take (6 + length (takeWhile is_key_char ?xs) + 1) (pre @ CHR ''{'' # t) =
               take (6 + length (takeWhile is_key_char ?xs) + 1) pre"
      by simp
    then show ?thesis using p tw dw Cons by (simp add: match_l10nPattern_def Let_def)
  qed
qed


lemma interpolate_append_brace:
  "interpolateTemplate (pre @ CHR ''{'' # t) m =
     interpolateTemplate pre m @ interpolateTemplate (CHR ''{'' # t) m"
proof (induction pre m rule: interpolateTemplate.induct)
  case (1 m)
  show ?case by simp
next
  case (2 c cs m)
  show ?case
  proof (cases "match_l10nPattern (c # cs)")
    case None
    then have "match_l10nPattern ((c # cs) @ CHR ''{'' # t) = None"
      using match_append_brace[of "c # cs" t] by simp
    then have "interpolateTemplate ((c # cs) @ CHR ''{'' # t) m =
               c # interpolateTemplate (cs @ CHR ''{'' # t) m"
      by simp
    also have "\<dots> = c # (interpolateTemplate cs m @ interpolateTemplate (CHR ''{'' # t) m)"
      by (simp only: 2(1)[OF None])
    also have "\<dots> = interpolateTemplate (c # cs) m @ interpolateTemplate (CHR ''{'' # t) m"
      using None by (simp del: interpolateTemplate.simps add: interpolateTemplate.simps(2)[of c cs m])
    finally show ?thesis .
  next
    case (Some x)
    obtain mt rest where x: "x = (mt, rest)" by (cases x)
    have "match_l10nPattern ((c # cs) @ CHR ''{'' # t) = Some (mt, rest @ CHR ''{'' # t)"
      using Some x match_append_brace[of "c # cs" t] by simp
    then have "interpolateTemplate ((c # cs) @ CHR ''{'' # t) m =
               replace_match m mt @ interpolateTemplate (rest @ CHR ''{'' # t) m"
      by simp
    also have "\<dots> = replace_match m mt @
                     (interpolateTemplate rest m @ interpolateTemplate (CHR ''{'' # t) m)"
      by (simp only: 2(2)[OF Some x[symmetric]])
    also have "\<dots> = interpolateTemplate (c # cs) m @ interpolateTemplate (CHR ''{'' # t) m"
      using Some x by (simp del: interpolateTemplate.simps add: interpolateTemplate.simps(2)[of c cs m])
    finally show ?thesis .
  qed
qed

lemma interpolate_copy:
  "CHR ''{'' \<notin> set s \<Longrightarrow> interpolateTemplate (s @ t) m = s @ interpolateTemplate t m"
  by (induction s) (auto simp: match_needs_brace)

lemma replace_match_marker:
  "replace_match m (marker key) =
     (case m key of Some val \<Rightarrow> [CHR 0x22] @ val @ [CHR 0x22] | None \<Rightarrow> marker key)"
proof -
  have "take (length (marker key) - 1 - 6) (drop 6 (marker key)) = key"
    by (simp add: marker_def)
  then show ?thesis by (simp add: replace_match_def)
qed

text \<open>
  Claim C10. Wherever a template holds a marker \<^verbatim>\<open>{l10n.key}\<close> whose key is a non-empty run
  of ASCII letters and underscores, interpolation puts there the localized value between
  two double-quote characters when the map has the key, and leaves the marker as it is when
  the map has no such key; the text before and the text after the marker are interpolated
  on their own. A marker whose key holds any other character is never matched by the
  pattern, whatever the map holds, and (its key being free of braces, as the text between
  \<^verbatim>\<open>{l10n.\<close> and the closing brace is) it is copied to the output unchanged.
\<close>

theorem interpolateTemplate_markers:
  "(key \<noteq> [] \<and> (\<forall>c \<in> set key. is_key_char c) \<and> localizedData key = Some val \<longrightarrow>
      interpolateTemplate (pre @ marker key @ post) localizedData =
        interpolateTemplate pre localizedData @ [CHR 0x22] @ val @ [CHR 0x22] @
        interpolateTemplate post localizedData) \<and>
   (key \<noteq> [] \<and> (\<forall>c \<in> set key. is_key_char c) \<and> localizedData key = None \<longrightarrow>
      interpolateTemplate (pre @ marker key @ post) localizedData =
        interpolateTemplate pre localizedData @ marker key @
        interpolateTemplate post localizedData) \<and>
   ((\<exists>c \<in> set key. \<not> is_key_char c) \<and> CHR ''}'' \<notin> set key \<longrightarrow>
      match_l10nPattern (marker key @ post) = None) \<and>
   ((\<exists>c \<in> set key. \<not> is_key_char c) \<and> CHR ''{'' \<notin> set key \<and> CHR ''}'' \<notin> set key \<longrightarrow>
      interpolateTemplate (pre @ marker key @ post) localizedData =
        interpolateTemplate pre localizedData @ marker key @
        interpolateTemplate post localizedData)"
proof (intro conjI impI)
  {
    assume "(\<exists>c \<in> set key. \<not> is_key_char c) \<and> CHR ''}'' \<notin> set key"
    then show "match_l10nPattern (marker key @ post) = None"
      using match_bad_marker[of key post] by simp
  }
  have split: "interpolateTemplate (pre @ marker key @ post) localizedData =
      interpolateTemplate pre localizedData @ interpolateTemplate (marker key @ post) localizedData"
    using interpolate_append_brace[of pre "''l10n.'' @ key @ ''}'' @ post" localizedData]
    by (simp add: marker_def)
  have m0: "marker key @ post = CHR ''{'' # (''l10n.'' @ key @ ''}'') @ post"
    by (simp add: marker_def)
  {
    assume h: "key \<noteq> [] \<and> (\<forall>c \<in> set key. is_key_char c) \<and> localizedData key = Some val"
    then have "match_l10nPattern (CHR ''{'' # (''l10n.'' @ key @ ''}'') @ post) = Some (marker key, post)"
      using match_marker[of key post] m0 by simp
    then have "interpolateTemplate (marker key @ post) localizedData =
            replace_match localizedData (marker key) @ interpolateTemplate post localizedData"
      unfolding m0 by simp
    then show "interpolateTemplate (pre @ marker key @ post) localizedData =
        interpolateTemplate pre localizedData @ [CHR 0x22] @ val @ [CHR 0x22] @
        interpolateTemplate post localizedData"
      using split h by (simp add: replace_match_marker)
  }
  {
    assume h: "key \<noteq> [] \<and> (\<forall>c \<in> set key. is_key_char c) \<and> localizedData key = None"
    then have "match_l10nPattern (CHR ''{'' # (''l10n.'' @ key @ ''}'') @ post) = Some (marker key, post)"
      using match_marker[of key post] m0 by simp
    then have "interpolateTemplate (marker key @ post) localizedData =
            replace_match localizedData (marker key) @ interpolateTemplate post localizedData"
      unfolding m0 by simp
    then show "interpolateTemplate (pre @ marker key @ post) localizedData =
        interpolateTemplate pre localizedData @ marker key @
        interpolateTemplate post localizedData"
      using split h by (simp add: replace_match_marker)
  }
  {
    assume h: "(\<exists>c \<in> set key. \<not> is_key_char c) \<and> CHR ''{'' \<notin> set key \<and> CHR ''}'' \<notin> set key"
    then have "match_l10nPattern (CHR ''{'' # (''l10n.'' @ key @ ''}'') @ post) = None"
      using match_bad_marker[of key post] m0 by simp
    then have "interpolateTemplate (marker key @ post) localizedData =
            CHR ''{'' # interpolateTemplate ((''l10n.'' @ key @ ''}'') @ post) localizedData"
      unfolding m0 by simp
    moreover have "CHR ''{'' \<notin> set (''l10n.'' @ key @ ''}'')" using h by simp
    ultimately have "interpolateTemplate (marker key @ post) localizedData =
            marker key @ interpolateTemplate post localizedData"
      using interpolate_copy[of "''l10n.'' @ key @ ''}''" post localizedData]
      by (simp add: marker_def)
    then show "interpolateTemplate (pre @ marker key @ post) localizedData =
        interpolateTemplate pre localizedData @ marker key @
        interpolateTemplate post localizedData"
      using split by simp
  }
qed

theorem interpolateTemplate_markers_witness:
  "''title'' \<noteq> [] \<and> list_all is_key_char ''title'' \<and>
   [''title'' \<mapsto> ''Hello'', ''error_404'' \<mapsto> ''Not found''] ''title'' = Some ''Hello'' \<and>
   interpolateTemplate (''<h1>'' @ marker ''title'' @ ''</h1>'')
       [''title'' \<mapsto> ''Hello'', ''error_404'' \<mapsto> ''Not found'']
     = ''<h1>'' @ [CHR 0x22] @ ''Hello'' @ [CHR 0x22] @ ''</h1>'' \<and>
   ''subtitle'' \<noteq> [] \<and> list_all is_key_char ''subtitle'' \<and>
   [''title'' \<mapsto> ''Hello'', ''error_404'' \<mapsto> ''Not found''] ''subtitle'' = None \<and>
   interpolateTemplate (''<h1>'' @ marker ''subtitle'' @ ''</h1>'')
       [''title'' \<mapsto> ''Hello'', ''error_404'' \<mapsto> ''Not found'']
     = ''<h1>{l10n.subtitle}</h1>'' \<and>
   (\<exists>c \<in> set ''error_404''. \<not> is_key_char c) \<and>
   CHR ''{'' \<notin> set ''error_404'' \<and> CHR ''}'' \<notin> set ''error_404'' \<and>
   [''title'' \<mapsto> ''Hello'', ''error_404'' \<mapsto> ''Not found''] ''error_404'' = Some ''Not found'' \<and>
   match_l10nPattern (marker ''error_404'' @ ''</p>'') = None \<and>
   interpolateTemplate (''<p>'' @ marker ''error_404'' @ ''</p>'')
       [''title'' \<mapsto> ''Hello'', ''error_404'' \<mapsto> ''Not found'']
     = ''<p>{l10n.error_404}</p>''"
proof -
  let ?m = "[''title'' \<mapsto> ''Hello'', ''error_404'' \<mapsto> ''Not found'']"
  have c1: "CHR ''{'' \<notin> set ''<h1>''" "CHR ''{'' \<notin> set ''</h1>''"
           "CHR ''{'' \<notin> set ''<p>''" "CHR ''{'' \<notin> set ''</p>''" by simp_all
  have plain: "interpolateTemplate ''<h1>'' m = ''<h1>''" "interpolateTemplate ''</h1>'' m = ''</h1>''"
    "interpolateTemplate ''<p>'' m = ''<p>''" "interpolateTemplate ''</p>'' m = ''</p>''" for m
    using interpolate_copy[OF c1(1), of "[]" m] interpolate_copy[OF c1(2), of "[]" m]
          interpolate_copy[OF c1(3), of "[]" m] interpolate_copy[OF c1(4), of "[]" m]
    by simp_all
  have k1: "''title'' \<noteq> [] \<and> (\<forall>c \<in> set ''title''. is_key_char c)"
    by (simp add: is_key_char_def)
  have k3: "''subtitle'' \<noteq> [] \<and> (\<forall>c \<in> set ''subtitle''. is_key_char c)"
    by (simp add: is_key_char_def)
  have k2: "(\<exists>c \<in> set ''error_404''. \<not> is_key_char c) \<and>
     CHR ''{'' \<notin> set ''error_404'' \<and> CHR ''}'' \<notin> set ''error_404''"
    by (simp add: is_key_char_def)
  have a: "interpolateTemplate (''<h1>'' @ marker ''title'' @ ''</h1>'') ?m
             = ''<h1>'' @ [CHR 0x22] @ ''Hello'' @ [CHR 0x22] @ ''</h1>''"
    using interpolateTemplate_markers[of "''title''" ?m "''Hello''" "''<h1>''" "''</h1>''"] k1 plain
    by simp
  have b: "interpolateTemplate (''<h1>'' @ marker ''subtitle'' @ ''</h1>'') ?m
             = ''<h1>{l10n.subtitle}</h1>''"
    using interpolateTemplate_markers[of "''subtitle''" ?m "''x''" "''<h1>''" "''</h1>''"] k3 plain
    by (simp add: marker_def)
  have c: "match_l10nPattern (marker ''error_404'' @ ''</p>'') = None"
      "interpolateTemplate (''<p>'' @ marker ''error_404'' @ ''</p>'') ?m = ''<p>{l10n.error_404}</p>''"
    using interpolateTemplate_markers[of "''error_404''" ?m "''x''" "''<p>''" "''</p>''"] k2 plain
    by (simp_all add: marker_def)
  show ?thesis using a b c k1 k2 k3 by (simp add: list_all_iff)
qed

section \<open>The generator\<close>

lemma componentStrings_foldl:
  "foldl (\<lambda>componentStrings key.
              componentStrings(key \<mapsto> (case strings key of Some val \<Rightarrow> val | None \<Rightarrow> placeholder key)))
           m ks k =
     (if k \<in> set ks then Some (case strings k of Some val \<Rightarrow> val | None \<Rightarrow> placeholder k) else m k)"
  by (induction ks arbitrary: m) auto

lemma componentStrings_of_apply:
  "componentStrings_of strings ks k =
     (if k \<in> set ks then Some (case strings k of Some val \<Rightarrow> val | None \<Rightarrow> placeholder k) else None)"
  by (simp add: componentStrings_of_def componentStrings_foldl)

lemma getLocalizedComponent_unknown:
  "map_of (reg_templates reg) componentType = None \<Longrightarrow>
     getLocalizedComponent reg lib clk componentType lang =
       Inl (''component type '' @ [CHR 0x27] @ componentType @ [CHR 0x27] @ '' not found'')"
  by (simp add: getLocalizedComponent_def)

lemma getLocalizedComponent_known:
  assumes "map_of (reg_templates reg) componentType = Some template"
  shows "getLocalizedComponent reg lib clk componentType lang =
     Inr \<lparr>ComponentName = ComponentName_t template,
          ComponentType = ComponentType_t template,
          Language = resolved_lang reg lang,
          Template = interpolateTemplate (Template_t template)
                       (componentStrings_of (resolved_strings reg lang) (RequiredKeys_t template)),
          LocalizedData = componentStrings_of (resolved_strings reg lang) (RequiredKeys_t template),
          Metadata = \<lparr>ComponentID = componentType @ ''_'' @ resolved_lang reg lang @ ''_'' @
                                     formatInt (go_rem (UnixMilli (tGenID clk)) 10000),
                      LastUpdated = formatRFC3339 lib (tGenStamp clk),
                      RequiredKeys = RequiredKeys_t template\<rparr>,
          Cached = False\<rparr>"
  using assms
  by (simp add: getLocalizedComponent_def resolved_lang_def resolved_strings_def Let_def
           split: option.splits)

text \<open>
  Claim C7. For a component type with a registered template, generation succeeds for every
  requested language, whatever the localization tables hold. The artifact's localized
  values have exactly the template's required keys; a required key that the resolved
  language's table holds maps to its string, and a required key absent from that table maps
  to the placeholder made of the key between square brackets.
\<close>

theorem getLocalizedComponent_placeholders:
  assumes "map_of (reg_templates reg) componentType = Some template"
  shows "\<exists>component.
           getLocalizedComponent reg lib clk componentType lang = Inr component \<and>
           dom (LocalizedData component) = set (RequiredKeys_t template) \<and>
           (\<forall>key \<in> set (RequiredKeys_t template).
              LocalizedData component key =
                (case resolved_strings reg lang key of
                   Some val \<Rightarrow> Some val
                 | None \<Rightarrow> Some (''['' @ key @ '']'')))"
  unfolding getLocalizedComponent_known[OF assms]
  by (auto simp: componentStrings_of_apply placeholder_def dom_def split: option.splits)

theorem getLocalizedComponent_placeholders_witness:
  "map_of (reg_templates demo_registry) ''banner'' =
     Some \<lparr>ComponentName_t = ''Banner'', ComponentType_t = ''functional'',
            Template_t = ''<b>{l10n.title}</b><i>{l10n.subtitle}</i>'',
            RequiredKeys_t = [''title'', ''subtitle'']\<rparr> \<and>
   resolved_strings demo_registry ''fr'' ''subtitle'' = None \<and>
   (\<exists>component.
      getLocalizedComponent demo_registry demo_library (clock_at 0) ''banner'' ''fr'' = Inr component \<and>
      LocalizedData component ''title'' = Some ''Salut'' \<and>
      LocalizedData component ''subtitle'' = Some ''[subtitle]'')"
proof -
  have t: "map_of (reg_templates demo_registry) ''banner'' =
     Some \<lparr>ComponentName_t = ''Banner'', ComponentType_t = ''functional'',
            Template_t = ''<b>{l10n.title}</b><i>{l10n.subtitle}</i>'',
            RequiredKeys_t = [''title'', ''subtitle'']\<rparr>"
    by (simp add: demo_registry_def)
  have s: "resolved_strings demo_registry ''fr'' ''subtitle'' = None"
          "resolved_strings demo_registry ''fr'' ''title'' = Some ''Salut''"
    by (simp_all add: demo_registry_def resolved_strings_def)
  from getLocalizedComponent_placeholders[OF t, of demo_library "clock_at 0" "''fr''"]
  obtain component where
    c: "getLocalizedComponent demo_registry demo_library (clock_at 0) ''banner'' ''fr'' = Inr component"
       "\<forall>key \<in> set [''title'', ''subtitle''].
              LocalizedData component key =
                (case resolved_strings demo_registry ''fr'' key of
                   Some val \<Rightarrow> Some val
                 | None \<Rightarrow> Some (''['' @ key @ '']''))"
    by auto
  from c(2) s have "LocalizedData component ''title'' = Some ''Salut''"
    "LocalizedData component ''subtitle'' = Some ''[subtitle]''" by simp_all
  with t s c(1) show ?thesis by blast
qed

lemma digit_inj: "a < 10 \<Longrightarrow> b < 10 \<Longrightarrow> digit a = digit b \<Longrightarrow> a = b"
proof -
  assume a: "a < 10" and b: "b < 10" and e: "digit a = digit b"
  have "distinct ''0123456789''" by simp
  moreover have "a < length ''0123456789''" "b < length ''0123456789''" using a b by simp_all
  ultimately show "a = b" using e unfolding digit_def by (simp only: nth_eq_iff_index_eq)
qed

lemma digit_not_minus: "a < 10 \<Longrightarrow> digit a \<noteq> CHR ''-''"
proof -
  assume a: "a < 10"
  then have "a < length ''0123456789''" by simp
  then have "digit a \<in> set ''0123456789''" unfolding digit_def by (rule nth_mem)
  then show ?thesis by auto
qed

lemma showNat_nonempty: "showNat n \<noteq> []"
  by (subst showNat.simps) simp

lemma showNat_hd: "hd (showNat n) \<noteq> CHR ''-''"
proof (induction n rule: showNat.induct)
  case (1 n)
  show ?case
  proof (cases "n < 10")
    case True
    then show ?thesis by (subst showNat.simps) (simp add: digit_not_minus)
  next
    case False
    then show ?thesis using 1 showNat_nonempty[of "n div 10"]
      by (subst showNat.simps) simp
  qed
qed

lemma showNat_inj: "showNat n = showNat m \<Longrightarrow> n = m"
proof (induction n arbitrary: m rule: showNat.induct)
  case (1 n)
  show ?case
  proof (cases "n < 10")
    case n: True
    show ?thesis
    proof (cases "m < 10")
      case True
      then show ?thesis using n 1(2)
        by (subst (asm) showNat.simps, subst (asm) (2) showNat.simps) (simp add: digit_inj)
    next
      case False
      have "length (showNat m) \<ge> 2"
        using False showNat_nonempty[of "m div 10"]
        by (subst showNat.simps) (cases "showNat (m div 10)"; simp)
      moreover have "length (showNat n) = 1" using n by (subst showNat.simps) simp
      ultimately show ?thesis using 1(2) by simp
    qed
  next
    case n: False
    show ?thesis
    proof (cases "m < 10")
      case True
      have "length (showNat n) \<ge> 2"
        using n showNat_nonempty[of "n div 10"]
        by (subst showNat.simps) (cases "showNat (n div 10)"; simp)
      moreover have "length (showNat m) = 1" using True by (subst showNat.simps) simp
      ultimately show ?thesis using 1(2) by simp
    next
      case False
      have en: "showNat n = showNat (n div 10) @ [digit (n mod 10)]"
        using n by (subst showNat.simps) simp
      have em: "showNat m = showNat (m div 10) @ [digit (m mod 10)]"
        using False by (subst showNat.simps) simp
      from 1(2) en em have "showNat (n div 10) = showNat (m div 10)"
        and d: "digit (n mod 10) = digit (m mod 10)" by simp_all
      then have "n div 10 = m div 10" using 1(1)[OF n] by simp
      moreover have "n mod 10 = m mod 10" using d by (intro digit_inj) simp_all
      ultimately show ?thesis by (metis div_mult_mod_eq)
    qed
  qed
qed

lemma formatInt_inj: "formatInt i = formatInt j \<Longrightarrow> i = j"
proof -
  assume e: "formatInt i = formatInt j"
  have neg: "showNat a \<noteq> CHR ''-'' # s" for a s
    using showNat_hd[of a] by (cases "showNat a") auto
  show "i = j"
  proof (cases "i < 0"; cases "j < 0")
    assume "i < 0" "j < 0"
    then have "nat (- i) = nat (- j)" using e showNat_inj by (simp add: formatInt_def)
    then show ?thesis using \<open>i < 0\<close> \<open>j < 0\<close> by simp
  next
    assume "i < 0" "\<not> j < 0"
    then show ?thesis using e neg[of "nat j"] by (simp add: formatInt_def) metis
  next
    assume "\<not> i < 0" "j < 0"
    then show ?thesis using e neg[of "nat i"] by (simp add: formatInt_def)
  next
    assume "\<not> i < 0" "\<not> j < 0"
    then have "nat i = nat j" using e showNat_inj by (simp add: formatInt_def)
    then show ?thesis using \<open>\<not> i < 0\<close> \<open>\<not> j < 0\<close> by simp
  qed
qed

lemma Get_Clear [simp]: "Get (Clear c) now key = (None, Clear c)"
  by (simp add: Get_def Clear_def)

lemma endpoint_generate_absent:
  assumes "Get c (tGet clk) (cacheKey_of reg componentType (case query of Some l \<Rightarrow> l | None \<Rightarrow> ''en'')) = (None, c1)"
    and "getLocalizedComponent reg lib clk componentType (case query of Some l \<Rightarrow> l | None \<Rightarrow> ''en'') = Inr component"
  shows "getLocalizedComponentEndpoint reg lib None clk c componentType query =
           \<lparr>resp = StatusOK (component\<lparr>Cached := False\<rparr>),
            componentCache = Put c1 (tPut clk)
               (cacheKey_of reg componentType (case query of Some l \<Rightarrow> l | None \<Rightarrow> ''en''))
               (component\<lparr>Cached := False\<rparr>),
            calls = [], printed = []\<rparr>"
  using assms by (simp add: getLocalizedComponentEndpoint_def generate_and_store_def Let_def)

lemma the_registry_welcome:
  "map_of (reg_templates the_registry) ''welcome'' =
     Some \<lparr>ComponentName_t = ''WelcomeComponent'', ComponentType_t = ''functional'',
            Template_t = welcome_template,
            RequiredKeys_t = [''welcome_title'', ''welcome_subtitle'', ''login_button'', ''signup_button'']\<rparr>"
  by (simp add: the_registry_def componentTemplates_def)

lemma localizationDB_dom:
  "localizationDB l \<noteq> None \<longleftrightarrow> l = ''en'' \<or> l = ''es'' \<or> l = ''fr'' \<or> l = ''de''"
  unfolding localizationDB_def by (simp del: map_of.simps add: map_of_Cons_code)

lemma the_registry_langs:
  "reg_l10n the_registry l \<noteq> None \<longleftrightarrow> l = ''en'' \<or> l = ''es'' \<or> l = ''fr'' \<or> l = ''de''"
  by (simp add: the_registry_def localizationDB_dom del: not_None_eq)

lemma resolved_lang_the_registry:
  "resolved_lang the_registry l = (if l = ''en'' \<or> l = ''es'' \<or> l = ''fr'' \<or> l = ''de'' then l else ''en'')"
  using the_registry_langs[of l] by (auto simp: resolved_lang_def split: option.splits)

text \<open>
  Claim C4, amended. Two generations of the same component and language, at any two clock
  readings, succeed with the same rendered template and the same localized values, and so
  do two lookups after the local cache was cleared when there is no remote tier. Their
  component ids differ exactly when the two Unix-millisecond readings differ modulo 10000:
  the id is the component type, the language and that remainder.
\<close>

theorem generation_identity:
  assumes t: "map_of (reg_templates reg) componentType = Some template"
  shows "\<exists>a1 a2.
           getLocalizedComponent reg lib clk1 componentType lang = Inr a1 \<and>
           getLocalizedComponent reg lib clk2 componentType lang = Inr a2 \<and>
           resp (getLocalizedComponentEndpoint reg lib None clk1 (Clear c1) componentType (Some lang))
             = StatusOK a1 \<and>
           resp (getLocalizedComponentEndpoint reg lib None clk2 (Clear c2) componentType (Some lang))
             = StatusOK a2 \<and>
           Template a1 = Template a2 \<and> LocalizedData a1 = LocalizedData a2 \<and>
           (ComponentID (Metadata a1) \<noteq> ComponentID (Metadata a2) \<longleftrightarrow>
              go_rem (UnixMilli (tGenID clk1)) 10000 \<noteq> go_rem (UnixMilli (tGenID clk2)) 10000)"
proof -
  note g = getLocalizedComponent_known[OF t, of lib _ lang]
  have e: "resp (getLocalizedComponentEndpoint reg lib None clk (Clear c) componentType (Some lang))
             = StatusOK a" if "getLocalizedComponent reg lib clk componentType lang = Inr a" for clk c a
  proof -
    have "Cached a = False" using that unfolding g by auto
    then have "a\<lparr>Cached := False\<rparr> = a" by simp
    then show ?thesis
      using endpoint_generate_absent[of "Clear c" clk reg componentType "Some lang" "Clear c" lib a] that
      by simp
  qed
  show ?thesis
    apply (intro exI conjI)
          apply (rule g[of clk1])
         apply (rule g[of clk2])
        apply (rule e[OF g])
       apply (rule e[OF g])
      apply simp
     apply simp
    apply (auto dest: formatInt_inj)
    done
qed

theorem generation_identity_witness:
  "map_of (reg_templates the_registry) ''welcome'' =
     Some \<lparr>ComponentName_t = ''WelcomeComponent'', ComponentType_t = ''functional'',
            Template_t = welcome_template,
            RequiredKeys_t = [''welcome_title'', ''welcome_subtitle'', ''login_button'', ''signup_button'']\<rparr> \<and>
   go_rem (UnixMilli (tGenID (clock_at 5000000))) 10000 \<noteq>
     go_rem (UnixMilli (tGenID (clock_at 7000000))) 10000 \<and>
   (\<exists>a1 a2.
      resp (getLocalizedComponentEndpoint the_registry demo_library None (clock_at 5000000)
              (Clear componentCache0) ''welcome'' (Some ''en'')) = StatusOK a1 \<and>
      resp (getLocalizedComponentEndpoint the_registry demo_library None (clock_at 7000000)
              (Clear componentCache0) ''welcome'' (Some ''en'')) = StatusOK a2 \<and>
      Template a1 = Template a2 \<and> LocalizedData a1 = LocalizedData a2 \<and>
      ComponentID (Metadata a1) \<noteq> ComponentID (Metadata a2))"
proof -
  have r: "go_rem (UnixMilli (tGenID (clock_at 5000000))) 10000 \<noteq>
     go_rem (UnixMilli (tGenID (clock_at 7000000))) 10000"
    by (simp add: clock_at_def UnixMilli_def go_rem_def)
  show ?thesis
    using generation_identity[OF the_registry_welcome, of demo_library "clock_at 5000000" "''en''"
            "clock_at 7000000" componentCache0 componentCache0] r the_registry_welcome
    by blast
qed

text \<open>
  Two lookups of \<^verbatim>\<open>welcome\<close> in English, the local cache cleared before each and no remote
  tier, ten seconds apart: both artifacts carry the component id \<^verbatim>\<open>welcome_en_0\<close>.
\<close>

theorem generation_identity_counterexample:
  "response_id (resp (getLocalizedComponentEndpoint the_registry demo_library None
       (clock_at 0) (Clear componentCache0) ''welcome'' (Some ''en''))) = Some ''welcome_en_0'' \<and>
   response_id (resp (getLocalizedComponentEndpoint the_registry demo_library None
       (clock_at (10 * Second))
       (Clear (componentCache (getLocalizedComponentEndpoint the_registry demo_library None
          (clock_at 0) (Clear componentCache0) ''welcome'' (Some ''en''))))
       ''welcome'' (Some ''en''))) = Some ''welcome_en_0''"
proof -
  have k: "resp (getLocalizedComponentEndpoint the_registry demo_library None clk (Clear c)
              ''welcome'' (Some ''en'')) =
           StatusOK ((projr (getLocalizedComponent the_registry demo_library clk ''welcome'' ''en''))\<lparr>Cached := False\<rparr>)" for clk c
    using endpoint_generate_absent[of "Clear c" clk the_registry "''welcome''" "Some ''en''" "Clear c" demo_library]
      getLocalizedComponent_known[OF the_registry_welcome, of demo_library clk "''en''"]
    by simp
  have f: "formatInt 0 = ''0''" by (simp add: formatInt_def showNat.simps digit_def)
  show ?thesis
    unfolding k getLocalizedComponent_known[OF the_registry_welcome]
    by (simp add: response_id_def resolved_lang_the_registry clock_at_def UnixMilli_def go_rem_def
          Second_def f)
qed

section \<open>The lookup handler: tiers, fallback language and failures\<close>

lemma endpoint_alt:
  "getLocalizedComponentEndpoint reg lib redisClient clk cache0 componentType query =
     (case Get cache0 (tGet clk) (cacheKey_of reg componentType (query_lang query)) of
           (Some component, cache1) \<Rightarrow>
             \<lparr>resp = StatusOK (component\<lparr>Cached := True\<rparr>),
              componentCache = cache1, calls = [], printed = []\<rparr>
         | (None, cache1) \<Rightarrow>
             (case redisClient of
                None \<Rightarrow> generate_and_store reg lib redisClient clk cache1 []
                          (cacheKey_of reg componentType (query_lang query)) componentType (query_lang query)
              | Some client \<Rightarrow>
                  (case getFromRedis lib client (cacheKey_of reg componentType (query_lang query)) of
                     Inr component \<Rightarrow>
                       \<lparr>resp = StatusOK (component\<lparr>Cached := True\<rparr>),
                        componentCache = Put cache1 (tPut clk) (cacheKey_of reg componentType (query_lang query)) component,
                        calls = [CallGet (cacheKey_of reg componentType (query_lang query)),
                                 CallExpire (cacheKey_of reg componentType (query_lang query)) RedisTTL],
                        printed = (case redis_Expire client (cacheKey_of reg componentType (query_lang query)) RedisTTL of
                                     Some err \<Rightarrow> [''Warning: Failed to refresh Redis TTL: '' @ err @
                                                  ''\<newline>'']
                                   | None \<Rightarrow> [])\<rparr>
                   | Inl err \<Rightarrow>
                       generate_and_store reg lib redisClient clk cache1
                         [CallGet (cacheKey_of reg componentType (query_lang query))]
                         (cacheKey_of reg componentType (query_lang query)) componentType (query_lang query))))"
  unfolding getLocalizedComponentEndpoint_def Let_def query_lang_def by (rule refl)

lemma Get_fresh:
  assumes "cache c key = Some element" and "elems c element = Some entry"
    and "timestamps c key = Some inserted" and "now - inserted \<le> ttl c"
  shows "Get c now key = (Some (evalue entry), c\<lparr>lruList := list_MoveToBack element (lruList c)\<rparr>)"
  using assms by (simp add: Get_def)

text \<open>
  Claim C9. When the local cache holds an entry under the request's key and the entry is
  not older than the TTL, the handler answers with the cached artifact, its \<^verbatim>\<open>cached\<close> flag
  set, makes no Redis call and prints nothing, whatever the Redis client is. The cache
  after the request is the cache before it with the entry's list element moved to the back
  of the recency list, which is the state \<^verbatim>\<open>Get\<close> itself returns: the map, the timestamps and
  the stored values are untouched, and the list holds the same elements.
\<close>

theorem local_hit_no_writes:
  assumes hit: "cache c (cacheKey_of reg componentType (query_lang query)) = Some element"
    and entry: "elems c element = Some entry"
    and ts: "timestamps c (cacheKey_of reg componentType (query_lang query)) = Some inserted"
    and fresh: "tGet clk - inserted \<le> ttl c"
  shows "getLocalizedComponentEndpoint reg lib redisClient clk c componentType query =
           \<lparr>resp = StatusOK ((evalue entry)\<lparr>Cached := True\<rparr>),
            componentCache = c\<lparr>lruList := list_MoveToBack element (lruList c)\<rparr>,
            calls = [], printed = []\<rparr> \<and>
         Get c (tGet clk) (cacheKey_of reg componentType (query_lang query)) =
           (Some (evalue entry), c\<lparr>lruList := list_MoveToBack element (lruList c)\<rparr>) \<and>
         set (lruList (c\<lparr>lruList := list_MoveToBack element (lruList c)\<rparr>)) = set (lruList c)"
  using Get_fresh[OF hit entry ts fresh]
  by (simp add: endpoint_alt MoveToBack_set)

lemma generate_known:
  assumes "getLocalizedComponent reg lib clk componentType lang = Inr component"
  shows "resp (generate_and_store reg lib redisClient clk cache1 made key componentType lang) =
           StatusOK (component\<lparr>Cached := False\<rparr>)"
    and "componentCache (generate_and_store reg lib redisClient clk cache1 made key componentType lang) =
           Put cache1 (tPut clk) key (component\<lparr>Cached := False\<rparr>)"
  using assms by (simp_all add: generate_and_store_def Let_def split: option.splits prod.splits)

lemma generate_unknown:
  assumes "getLocalizedComponent reg lib clk componentType lang = Inl err"
  shows "generate_and_store reg lib redisClient clk cache1 made key componentType lang =
           \<lparr>resp = StatusNotFound err (dom (map_of (reg_templates reg))),
            componentCache = cache1, calls = made, printed = []\<rparr>"
  using assms by (simp add: generate_and_store_def)

text \<open>
  Claim C6. For a registered component the handler always answers with status 200 and an
  artifact, whatever the Redis client is and whatever it answers, and also when there is no
  client. When the fetch from Redis fails (an error of the client or of the decoder), the
  response and the local cache after the request are those of the same request without a
  Redis client: the failure counts as a miss. When, after a miss in both tiers, the store
  into Redis fails, the handler prints the warning with the error and answers with the
  generated artifact all the same.
\<close>

theorem remote_failures_absorbed:
  assumes t: "map_of (reg_templates reg) componentType = Some template"
  shows "(\<exists>a. resp (getLocalizedComponentEndpoint reg lib redisClient clk c componentType query)
                = StatusOK a) \<and>
         (getFromRedis lib client (cacheKey_of reg componentType (query_lang query)) = Inl err \<longrightarrow>
            resp (getLocalizedComponentEndpoint reg lib (Some client) clk c componentType query) =
              resp (getLocalizedComponentEndpoint reg lib None clk c componentType query) \<and>
            componentCache (getLocalizedComponentEndpoint reg lib (Some client) clk c componentType query) =
              componentCache (getLocalizedComponentEndpoint reg lib None clk c componentType query)) \<and>
         (fst (Get c (tGet clk) (cacheKey_of reg componentType (query_lang query))) = None \<and>
          getFromRedis lib client (cacheKey_of reg componentType (query_lang query)) = Inl err \<and>
          getLocalizedComponent reg lib clk componentType (query_lang query) = Inr a \<and>
          fst (setInRedis lib client (cacheKey_of reg componentType (query_lang query)) a) = Some err' \<longrightarrow>
            resp (getLocalizedComponentEndpoint reg lib (Some client) clk c componentType query) =
              StatusOK a \<and>
            printed (getLocalizedComponentEndpoint reg lib (Some client) clk c componentType query) =
              [''Warning: Failed to cache in Redis: '' @ err' @ ''\<newline>''])"
proof (intro conjI impI)
  let ?key = "cacheKey_of reg componentType (query_lang query)"
  note g = getLocalizedComponent_known[OF t, of lib clk "query_lang query"]
  note gk = generate_known[OF g]
  show "\<exists>a. resp (getLocalizedComponentEndpoint reg lib redisClient clk c componentType query) = StatusOK a"
    unfolding endpoint_alt
    by (auto simp: gk split: prod.splits option.splits sum.splits)
  {
    assume f: "getFromRedis lib client ?key = Inl err"
    show "resp (getLocalizedComponentEndpoint reg lib (Some client) clk c componentType query) =
              resp (getLocalizedComponentEndpoint reg lib None clk c componentType query)"
      unfolding endpoint_alt using f
      by (auto simp: gk split: prod.splits option.splits)
    show "componentCache (getLocalizedComponentEndpoint reg lib (Some client) clk c componentType query) =
              componentCache (getLocalizedComponentEndpoint reg lib None clk c componentType query)"
      unfolding endpoint_alt using f
      by (auto simp: gk split: prod.splits option.splits)
  }
  {
    assume h: "fst (Get c (tGet clk) ?key) = None \<and> getFromRedis lib client ?key = Inl err \<and>
          getLocalizedComponent reg lib clk componentType (query_lang query) = Inr a \<and>
          fst (setInRedis lib client ?key a) = Some err'"
    then have c: "Cached a = False" unfolding g by auto
    then have a: "a\<lparr>Cached := False\<rparr> = a" by simp
    obtain c1 where c1: "Get c (tGet clk) ?key = (None, c1)" using h by (cases "Get c (tGet clk) ?key") auto
    show "resp (getLocalizedComponentEndpoint reg lib (Some client) clk c componentType query) = StatusOK a"
      unfolding endpoint_alt using h c1 a generate_known(1)[of reg lib clk componentType "query_lang query" a]
      by simp
    show "printed (getLocalizedComponentEndpoint reg lib (Some client) clk c componentType query) =
              [''Warning: Failed to cache in Redis: '' @ err' @ ''\<newline>'']"
      unfolding endpoint_alt using h c1
      by (auto simp: generate_and_store_def split: prod.splits option.splits)
  }
qed

lemma cacheKey_of_alt:
  "cacheKey_of reg componentType lang = ''component:'' @ componentType @ '':'' @ resolved_lang reg lang"
  by (simp add: cacheKey_of_def resolved_lang_def Let_def)

lemma last_separator_unique:
  assumes "xs @ c # ys = xs' @ c # ys'" and "c \<notin> set ys" and "c \<notin> set ys'"
  shows "xs = xs' \<and> ys = ys'"
proof -
  have tw: "takeWhile (\<lambda>x. x \<noteq> c) (rev (zs @ c # ws)) = rev ws" if "c \<notin> set ws" for zs ws
  proof -
    have "takeWhile (\<lambda>x. x \<noteq> c) (rev ws @ c # rev zs) = rev ws @ takeWhile (\<lambda>x. x \<noteq> c) (c # rev zs)"
      using that by (intro takeWhile_append2) auto
    then show ?thesis by simp
  qed
  have "takeWhile (\<lambda>x. x \<noteq> c) (rev (xs @ c # ys)) = rev ys" by (rule tw[OF assms(2)])
  moreover have "takeWhile (\<lambda>x. x \<noteq> c) (rev (xs' @ c # ys')) = rev ys'" by (rule tw[OF assms(3)])
  ultimately have "rev ys = rev ys'" using assms(1) by simp
  then have "ys = ys'" by simp
  then show ?thesis using assms(1) by simp
qed

lemma resolved_lang_colon_free:
  "colon_free reg \<Longrightarrow> CHR '':'' \<notin> set (resolved_lang reg lang)"
  by (auto simp: colon_free_def resolved_lang_def split: option.splits)

lemma cacheKey_of_inj:
  assumes "colon_free reg" and "cacheKey_of reg ct lang = cacheKey_of reg ct' lang'"
  shows "ct = ct' \<and> resolved_lang reg lang = resolved_lang reg lang'"
  using last_separator_unique[of ct "CHR '':''" "resolved_lang reg lang" ct' "resolved_lang reg lang'"]
        resolved_lang_colon_free[OF assms(1)] assms(2)
  by (simp add: cacheKey_of_alt)

lemma cached_value_frame [simp]:
  "cached_value (c\<lparr>lruList := l\<rparr>) = cached_value c"
  "cached_value (c\<lparr>timestamps := ts\<rparr>) = cached_value c"
  "cached_value (c\<lparr>nextElem := n\<rparr>) = cached_value c"
  by (simp_all add: cached_value_def fun_eq_iff)

lemma cached_value_cache_update:
  "cached_value (c\<lparr>cache := m\<rparr>) k = Option.bind (m k) (\<lambda>element. map_option evalue (elems c element))"
  by (simp add: cached_value_def)

lemma Get_cases:
  "Get c now key = (None, c) \<or>
   (\<exists>element. Get c now key =
        (None, c\<lparr>lruList := list_Remove element (lruList c),
                 cache := (cache c)(key := None),
                 timestamps := (timestamps c)(key := None)\<rparr>)) \<or>
   (\<exists>element. cache c key = Some element \<and>
       Get c now key = (map_option evalue (elems c element),
                        c\<lparr>lruList := list_MoveToBack element (lruList c)\<rparr>))"
proof (cases "cache c key")
  case None
  then have "Get c now key = (None, c)" by (simp add: Get_def)
  then show ?thesis by (rule disjI1)
next
  case (Some element)
  show ?thesis
  proof (cases "expired c now key")
    case True
    then have "Get c now key =
        (None, c\<lparr>lruList := list_Remove element (lruList c),
                 cache := (cache c)(key := None),
                 timestamps := (timestamps c)(key := None)\<rparr>)"
      using Some by (simp add: Get_def expired_def)
    then show ?thesis by (intro disjI2 disjI1 exI)
  next
    case False
    then have "Get c now key = (map_option evalue (elems c element),
                        c\<lparr>lruList := list_MoveToBack element (lruList c)\<rparr>)"
      using Some by (simp add: Get_def expired_def)
    then show ?thesis using Some by (intro disjI2 exI conjI)
  qed
qed

lemma cached_value_Get:
  assumes "cached_value (snd (Get c now key)) k = Some x"
  shows "cached_value c k = Some x"
proof -
  consider "Get c now key = (None, c)"
    | element where "Get c now key =
        (None, c\<lparr>lruList := list_Remove element (lruList c),
                 cache := (cache c)(key := None),
                 timestamps := (timestamps c)(key := None)\<rparr>)"
    | element where "Get c now key = (map_option evalue (elems c element),
                        c\<lparr>lruList := list_MoveToBack element (lruList c)\<rparr>)"
    using Get_cases[of c now key] by blast
  then show ?thesis
  proof cases
    case 1
    then show ?thesis using assms by simp
  next
    case 2
    then have "Option.bind (((cache c)(key := None)) k) (\<lambda>element. map_option evalue (elems c element)) = Some x"
      using assms by (simp add: cached_value_cache_update)
    then show ?thesis by (cases "k = key") (simp_all add: cached_value_def)
  next
    case 3
    then show ?thesis using assms by simp
  qed
qed

lemma Get_Some_cached:
  assumes "fst (Get c now key) = Some v"
  shows "cached_value c key = Some v"
  using Get_cases[of c now key] assms by (auto simp: cached_value_def)

lemma cached_value_evict:
  assumes a: "cached_value (evict_oldest c) k = Some x"
  shows "cached_value c k = Some x"
proof (cases "list_Front (lruList c)")
  case None
  then show ?thesis using a by (simp add: evict_oldest_def)
next
  case (Some oldest)
  show ?thesis
  proof (cases "elems c oldest")
    case None
    then show ?thesis using a Some by (simp add: evict_oldest_def)
  next
    case (Some entry)
    then have "Option.bind (((cache c)(ekey entry := None)) k)
                 (\<lambda>element. map_option evalue (elems c element)) = Some x"
      using a \<open>list_Front (lruList c) = Some oldest\<close>
      by (simp add: evict_oldest_def cached_value_cache_update)
    then show ?thesis by (cases "k = ekey entry") (simp_all add: cached_value_def)
  qed
qed

lemma cached_value_Put:
  assumes inv: "cache_inv c" and v: "cached_value (Put c now key val) k = Some x"
  shows "(k = key \<and> x = val) \<or> cached_value c k = Some x"
proof (cases "cache c key")
  case (Some element)
  obtain entry where e: "elems c element = Some entry" using inv_cache_entry[OF inv Some] by auto
  have P: "Put c now key val = c\<lparr>lruList := list_MoveToBack element (lruList c),
            elems := (elems c)(element \<mapsto> entry\<lparr>evalue := val\<rparr>),
            timestamps := (timestamps c)(key \<mapsto> now)\<rparr>"
    using Some e by (simp add: Put_def)
  have cv: "cached_value (Put c now key val) k =
        (case cache c k of None \<Rightarrow> None
         | Some a \<Rightarrow> if a = element then Some val else map_option evalue (elems c a))"
    unfolding P by (cases "cache c k") (simp_all add: cached_value_def)
  show ?thesis
  proof (cases "k = key")
    case True
    then show ?thesis using v Some unfolding cv by simp
  next
    case False
    have "cache c k \<noteq> Some element" using inv_cache_inj[OF inv Some] False by auto
    then show ?thesis using v unfolding cv by (cases "cache c k") (simp_all add: cached_value_def)
  qed
next
  case None
  define c1 where "c1 = (if list_Len (lruList c) \<ge> maxSize c then evict_oldest c else c)"
  have c1: "cache_inv c1" using inv by (auto simp: c1_def evict_oldest_inv)
  have sub: "cached_value c1 k = Some y \<Longrightarrow> cached_value c k = Some y" for y
    unfolding c1_def by (cases "list_Len (lruList c) \<ge> maxSize c") (simp_all add: cached_value_evict[of c k y])
  have P: "Put c now key val = c1\<lparr>elems := (elems c1)(nextElem c1 \<mapsto> \<lparr>ekey = key, evalue = val\<rparr>),
                 nextElem := Suc (nextElem c1),
                 lruList := list_PushBack (nextElem c1) (lruList c1),
                 cache := (cache c1)(key \<mapsto> nextElem c1),
                 timestamps := (timestamps c1)(key \<mapsto> now)\<rparr>"
    using None by (simp add: Put_def Let_def c1_def[symmetric])
  have cv: "cached_value (Put c now key val) k =
        (if k = key then Some val
         else case cache c1 k of None \<Rightarrow> None
              | Some a \<Rightarrow> if a = nextElem c1 then Some val else map_option evalue (elems c1 a))"
    unfolding P by (cases "cache c1 k") (simp_all add: cached_value_def)
  show ?thesis
  proof (cases "k = key")
    case True
    then show ?thesis using v unfolding cv by simp
  next
    case False
    have "cache c1 k \<noteq> Some (nextElem c1)"
      using inv_cache_in[OF c1, of k "nextElem c1"] inv_fresh[OF c1, of "nextElem c1"] by auto
    then have "cached_value c1 k = Some x"
      using v False unfolding cv by (cases "cache c1 k") (simp_all add: cached_value_def)
    then show ?thesis using sub by simp
  qed
qed

lemma slots_hold_Get: "slots_hold P c \<Longrightarrow> slots_hold P (snd (Get c now key))"
  unfolding slots_hold_def by (auto dest: cached_value_Get)

lemma slots_hold_Put:
  "cache_inv c \<Longrightarrow> slots_hold P c \<Longrightarrow> P key val \<Longrightarrow> slots_hold P (Put c now key val)"
  unfolding slots_hold_def by (auto dest: cached_value_Put)

lemma slots_hold_New: "slots_hold P (NewTTLCache n d)"
  by (simp add: slots_hold_def cached_value_def NewTTLCache_def)

lemma generated_slot_ok:
  assumes "getLocalizedComponent reg lib clk componentType lang = Inr component"
  shows "slot_ok reg (cacheKey_of reg componentType lang) (component\<lparr>Cached := b\<rparr>)"
proof (cases "map_of (reg_templates reg) componentType")
  case None
  then show ?thesis using assms by (simp add: getLocalizedComponent_unknown)
next
  case (Some template)
  show ?thesis using assms Some unfolding getLocalizedComponent_known[OF Some] slot_ok_def
    by (intro exI[of _ componentType] exI[of _ lang]) auto
qed

lemma endpoint_local_hit:
  assumes "Get c (tGet clk) (cacheKey_of reg componentType (query_lang query)) = (Some component, c1)"
  shows "getLocalizedComponentEndpoint reg lib redisClient clk c componentType query =
           \<lparr>resp = StatusOK (component\<lparr>Cached := True\<rparr>), componentCache = c1, calls = [], printed = []\<rparr>"
  unfolding endpoint_alt assms by simp

lemma remote_fetch_Some:
  "remote_fetch lib redisClient key = Some component \<longleftrightarrow>
     (\<exists>client. redisClient = Some client \<and> getFromRedis lib client key = Inr component)"
  by (cases redisClient; cases "getFromRedis lib (the redisClient) key") (simp_all add: remote_fetch_def)

lemma remote_fetch_None:
  "remote_fetch lib redisClient key = None \<longleftrightarrow>
     (redisClient = None \<or> (\<exists>client err. redisClient = Some client \<and> getFromRedis lib client key = Inl err))"
  by (cases redisClient; cases "getFromRedis lib (the redisClient) key") (simp_all add: remote_fetch_def)

lemma endpoint_remote_hit:
  assumes g: "Get c (tGet clk) (cacheKey_of reg componentType (query_lang query)) = (None, c1)"
    and f: "remote_fetch lib redisClient (cacheKey_of reg componentType (query_lang query)) = Some component"
  shows "resp (getLocalizedComponentEndpoint reg lib redisClient clk c componentType query) =
           StatusOK (component\<lparr>Cached := True\<rparr>)"
    and "componentCache (getLocalizedComponentEndpoint reg lib redisClient clk c componentType query) =
           Put c1 (tPut clk) (cacheKey_of reg componentType (query_lang query)) component"
    and "calls (getLocalizedComponentEndpoint reg lib redisClient clk c componentType query) =
           [CallGet (cacheKey_of reg componentType (query_lang query)),
            CallExpire (cacheKey_of reg componentType (query_lang query)) RedisTTL]"
proof -
  from f obtain client where c: "redisClient = Some client"
    "getFromRedis lib client (cacheKey_of reg componentType (query_lang query)) = Inr component"
    unfolding remote_fetch_Some by blast
  show "resp (getLocalizedComponentEndpoint reg lib redisClient clk c componentType query) =
           StatusOK (component\<lparr>Cached := True\<rparr>)"
    unfolding endpoint_alt g using c by simp
  show "componentCache (getLocalizedComponentEndpoint reg lib redisClient clk c componentType query) =
           Put c1 (tPut clk) (cacheKey_of reg componentType (query_lang query)) component"
    unfolding endpoint_alt g using c by simp
  show "calls (getLocalizedComponentEndpoint reg lib redisClient clk c componentType query) =
           [CallGet (cacheKey_of reg componentType (query_lang query)),
            CallExpire (cacheKey_of reg componentType (query_lang query)) RedisTTL]"
    unfolding endpoint_alt g using c by simp
qed

lemma endpoint_both_miss:
  assumes g: "Get c (tGet clk) (cacheKey_of reg componentType (query_lang query)) = (None, c1)"
    and f: "remote_fetch lib redisClient (cacheKey_of reg componentType (query_lang query)) = None"
  shows "getLocalizedComponentEndpoint reg lib redisClient clk c componentType query =
           generate_and_store reg lib redisClient clk c1
             (case redisClient of None \<Rightarrow> []
              | Some client \<Rightarrow> [CallGet (cacheKey_of reg componentType (query_lang query))])
             (cacheKey_of reg componentType (query_lang query)) componentType (query_lang query)"
proof (cases redisClient)
  case None
  show ?thesis unfolding endpoint_alt g None by simp
next
  case (Some client)
  then obtain err where e: "getFromRedis lib client (cacheKey_of reg componentType (query_lang query)) = Inl err"
    using f unfolding remote_fetch_None by auto
  show ?thesis unfolding endpoint_alt g using Some e by simp
qed

lemma endpoint_componentCache:
  "componentCache (getLocalizedComponentEndpoint reg lib redisClient clk c componentType query) =
     (let key = cacheKey_of reg componentType (query_lang query);
          c1 = snd (Get c (tGet clk) key)
      in case fst (Get c (tGet clk) key) of
           Some component \<Rightarrow> c1
         | None \<Rightarrow>
             (case remote_fetch lib redisClient key of
                Some component \<Rightarrow> Put c1 (tPut clk) key component
              | None \<Rightarrow>
                  (case getLocalizedComponent reg lib clk componentType (query_lang query) of
                     Inl err \<Rightarrow> c1
                   | Inr component \<Rightarrow> Put c1 (tPut clk) key (component\<lparr>Cached := False\<rparr>))))"
proof -
  let ?key = "cacheKey_of reg componentType (query_lang query)"
  obtain r c1 where g: "Get c (tGet clk) ?key = (r, c1)" by (cases "Get c (tGet clk) ?key")
  show ?thesis
  proof (cases r)
    case (Some component)
    then show ?thesis using endpoint_local_hit[OF g[unfolded Some]] g by (simp add: Let_def)
  next
    case None
    note g' = g[unfolded None]
    show ?thesis
    proof (cases "remote_fetch lib redisClient ?key")
      case (Some component)
      then show ?thesis using endpoint_remote_hit(2)[OF g' Some] g' by (simp add: Let_def)
    next
      case N: None
      show ?thesis
      proof (cases "getLocalizedComponent reg lib clk componentType (query_lang query)")
        case (Inl err)
        then show ?thesis using endpoint_both_miss[OF g' N] g' N
          by (simp add: Let_def generate_unknown)
      next
        case (Inr component)
        then show ?thesis using endpoint_both_miss[OF g' N] g' N
          by (simp add: Let_def generate_known(2)[OF Inr])
      qed
    qed
  qed
qed

lemma endpoint_inv:
  assumes inv: "cache_inv c"
  shows "cache_inv (componentCache (getLocalizedComponentEndpoint reg lib redisClient clk c componentType query))"
proof -
  have "cache_inv (snd (Get c (tGet clk) (cacheKey_of reg componentType (query_lang query))))"
    by (rule Get_inv[OF inv])
  then show ?thesis unfolding endpoint_componentCache Let_def
    by (simp add: Put_inv split: option.split sum.split)
qed

lemma stores_of_append: "stores_of (xs @ ys) = stores_of xs @ stores_of ys"
  by (induction xs rule: stores_of.induct) simp_all

lemma generate_stores:
  "stores_of (calls (generate_and_store reg lib redisClient clk c1 made key componentType lang)) =
     stores_of made \<or>
   (\<exists>a data. getLocalizedComponent reg lib clk componentType lang = Inr a \<and>
              json_Marshal lib a = Inr data \<and>
              stores_of (calls (generate_and_store reg lib redisClient clk c1 made key componentType lang)) =
                stores_of made @ [(key, data)])"
  by (auto simp: generate_and_store_def setInRedis_def Let_def stores_of_append
           split: sum.splits option.splits prod.splits)

lemma endpoint_stores:
  "stores_of (calls (getLocalizedComponentEndpoint reg lib redisClient clk c componentType query)) = [] \<or>
   (\<exists>a data. getLocalizedComponent reg lib clk componentType (query_lang query) = Inr a \<and>
              json_Marshal lib a = Inr data \<and>
              stores_of (calls (getLocalizedComponentEndpoint reg lib redisClient clk c componentType query)) =
                [(cacheKey_of reg componentType (query_lang query), data)])"
proof -
  let ?key = "cacheKey_of reg componentType (query_lang query)"
  obtain r c1 where g: "Get c (tGet clk) ?key = (r, c1)" by (cases "Get c (tGet clk) ?key")
  show ?thesis
  proof (cases r)
    case (Some v)
    show ?thesis using endpoint_local_hit[OF g[unfolded Some]] by simp
  next
    case None
    note g' = g[unfolded None]
    show ?thesis
    proof (cases "remote_fetch lib redisClient ?key")
      case (Some v)
      show ?thesis using endpoint_remote_hit(3)[OF g' Some] by simp
    next
      case N: None
      show ?thesis unfolding endpoint_both_miss[OF g' N]
        using generate_stores[of reg lib redisClient clk c1
                "case redisClient of None \<Rightarrow> [] | Some client \<Rightarrow> [CallGet ?key]" ?key componentType
                "query_lang query"]
        by (cases redisClient) simp_all
    qed
  qed
qed

lemma answered_fetch:
  assumes "answers_from stored redisClient key" and "remote_fetch lib redisClient key = Some component"
  shows "\<exists>data. (key, data) \<in> set stored \<and> json_Unmarshal lib data = Inr component"
  using assms
  by (auto simp: answers_from_def remote_fetch_def getFromRedis_def split: option.splits sum.splits)

lemma endpoint_step:
  assumes gen: "\<And>clk componentType lang a b.
                  getLocalizedComponent reg lib clk componentType lang = Inr a \<Longrightarrow>
                  P (cacheKey_of reg componentType lang) (a\<lparr>Cached := b\<rparr>)"
    and rt: "\<And>key a data a'. P key a \<Longrightarrow> json_Marshal lib a = Inr data \<Longrightarrow>
                  json_Unmarshal lib data = Inr a' \<Longrightarrow> P key a'"
    and inv: "cache_inv c" and ok: "slots_hold P c" and st: "stored_hold P lib stored"
    and ans: "answers_from stored redisClient (cacheKey_of reg componentType (query_lang query))"
  shows "slots_hold P (componentCache (getLocalizedComponentEndpoint reg lib redisClient clk c componentType query))"
    and "stored_hold P lib
           (stored @ stores_of (calls (getLocalizedComponentEndpoint reg lib redisClient clk c componentType query)))"
proof -
  let ?key = "cacheKey_of reg componentType (query_lang query)"
  let ?c1 = "snd (Get c (tGet clk) ?key)"
  have c1: "cache_inv ?c1" "slots_hold P ?c1"
    by (rule Get_inv[OF inv], rule slots_hold_Get[OF ok])
  have f: "P ?key component" if h: "remote_fetch lib redisClient ?key = Some component" for component
  proof -
    from answered_fetch[OF ans h] obtain data where
      d: "(?key, data) \<in> set stored" "json_Unmarshal lib data = Inr component" by blast
    from st d(1) obtain a where a: "json_Marshal lib a = Inr data" "P ?key a"
      unfolding stored_hold_def by blast
    show ?thesis by (rule rt[OF a(2) a(1) d(2)])
  qed
  have a: "slots_hold P (Put ?c1 (tPut clk) ?key component)"
    if "remote_fetch lib redisClient ?key = Some component" for component
    by (rule slots_hold_Put[OF c1 f[OF that]])
  have b: "slots_hold P (Put ?c1 (tPut clk) ?key (component\<lparr>Cached := False\<rparr>))"
    if "getLocalizedComponent reg lib clk componentType (query_lang query) = Inr component" for component
    by (rule slots_hold_Put[OF c1 gen[OF that]])
  show "slots_hold P (componentCache (getLocalizedComponentEndpoint reg lib redisClient clk c componentType query))"
    unfolding endpoint_componentCache Let_def
    using c1(2) a b by (simp split: option.split sum.split)
  have g: "P ?key a" if "getLocalizedComponent reg lib clk componentType (query_lang query) = Inr a" for a
    using gen[OF that, of "Cached a"] by simp
  show "stored_hold P lib
           (stored @ stores_of (calls (getLocalizedComponentEndpoint reg lib redisClient clk c componentType query)))"
    using endpoint_stores[of reg lib redisClient clk c componentType query] st g
    unfolding stored_hold_def by auto
qed

lemma private_last:
  assumes gen: "\<And>clk componentType lang a b.
                  getLocalizedComponent reg lib clk componentType lang = Inr a \<Longrightarrow>
                  P (cacheKey_of reg componentType lang) (a\<lparr>Cached := b\<rparr>)"
    and rt: "\<And>key a data a'. P key a \<Longrightarrow> json_Marshal lib a = Inr data \<Longrightarrow>
                  json_Unmarshal lib data = Inr a' \<Longrightarrow> P key a'"
    and "cache_inv c" and "slots_hold P c" and "stored_hold P lib stored"
    and "remote_private reg lib c stored (rqs @ [rq])"
  shows "slots_hold P (serve reg lib c rqs) \<and>
         (\<forall>component.
            remote_fetch lib (rq_redis rq) (cacheKey_of reg (rq_type rq) (query_lang (rq_query rq))) =
              Some component \<longrightarrow>
            P (cacheKey_of reg (rq_type rq) (query_lang (rq_query rq))) component)"
  using assms(3-6)
proof (induction rqs arbitrary: c stored)
  case Nil
  let ?key = "cacheKey_of reg (rq_type rq) (query_lang (rq_query rq))"
  have ans: "answers_from stored (rq_redis rq) ?key" using Nil.prems(4) by simp
  have "P ?key component" if h: "remote_fetch lib (rq_redis rq) ?key = Some component" for component
  proof -
    from answered_fetch[OF ans h] obtain data where
      d: "(?key, data) \<in> set stored" "json_Unmarshal lib data = Inr component" by blast
    from Nil.prems(3) d(1) obtain a where a: "json_Marshal lib a = Inr data" "P ?key a"
      unfolding stored_hold_def by blast
    show ?thesis by (rule rt[OF a(2) a(1) d(2)])
  qed
  then show ?case using Nil.prems(2) by (simp add: serve_def)
next
  case (Cons r rqs)
  let ?out = "getLocalizedComponentEndpoint reg lib (rq_redis r) (rq_clock r) c (rq_type r) (rq_query r)"
  have ans: "answers_from stored (rq_redis r) (cacheKey_of reg (rq_type r) (query_lang (rq_query r)))"
    and rest: "remote_private reg lib (serve_one reg lib c r) (stored @ stores_of (calls ?out)) (rqs @ [rq])"
    using Cons.prems(4) by simp_all
  have i: "cache_inv (serve_one reg lib c r)"
    unfolding serve_one_def by (rule endpoint_inv[OF Cons.prems(1)])
  have s: "slots_hold P (serve_one reg lib c r)"
    unfolding serve_one_def
    by (rule endpoint_step(1)[of reg lib P, OF gen rt Cons.prems(1) Cons.prems(2) Cons.prems(3) ans])
  have t: "stored_hold P lib (stored @ stores_of (calls ?out))"
    by (rule endpoint_step(2)[of reg lib P, OF gen rt Cons.prems(1) Cons.prems(2) Cons.prems(3) ans])
  from Cons.IH[OF i s t rest] show ?case by (simp add: serve_def)
qed

lemma serve_cache_inv: "cache_inv c \<Longrightarrow> cache_inv (serve reg lib c rqs)"
  unfolding serve_def
  by (induction rqs arbitrary: c) (simp_all add: serve_one_def endpoint_inv)

lemma stored_hold_Nil: "stored_hold P lib []"
  by (simp add: stored_hold_def)

lemma json_keeps_slot:
  assumes "json_keeps_language lib" and "slot_ok reg key a" and "json_Marshal lib a = Inr data"
    and "json_Unmarshal lib data = Inr a'"
  shows "slot_ok reg key a'"
proof -
  have "Language a' = Language a" using assms(1,3,4) unfolding json_keeps_language_def by blast
  then show ?thesis using assms(2) unfolding slot_ok_def by simp
qed


lemma colon_free_the_registry: "colon_free the_registry"
  unfolding colon_free_def using the_registry_langs by auto

lemma resolved_lang_unsupported: "reg_l10n reg lang = None \<Longrightarrow> resolved_lang reg lang = ''en''"
  by (simp add: resolved_lang_def)

lemma resolved_lang_en: "resolved_lang reg ''en'' = ''en''"
  by (simp add: resolved_lang_def split: option.splits)

lemma resolved_strings_unsupported:
  "reg_l10n reg lang = None \<Longrightarrow> resolved_strings reg lang = resolved_strings reg ''en''"
  by (simp add: resolved_strings_def split: option.splits)

lemma getLocalizedComponent_unsupported:
  assumes "reg_l10n reg lang = None"
  shows "getLocalizedComponent reg lib clk componentType lang =
         getLocalizedComponent reg lib clk componentType ''en''"
proof (cases "map_of (reg_templates reg) componentType")
  case None
  then show ?thesis by (simp add: getLocalizedComponent_unknown)
next
  case (Some template)
  show ?thesis unfolding getLocalizedComponent_known[OF Some]
    by (simp add: resolved_lang_unsupported[OF assms] resolved_lang_en
                  resolved_strings_unsupported[OF assms])
qed

lemma cacheKey_of_unsupported:
  "reg_l10n reg lang = None \<Longrightarrow> cacheKey_of reg componentType lang = ''component:'' @ componentType @ '':en''"
  by (simp add: cacheKey_of_alt resolved_lang_unsupported)

lemma cacheKey_of_en: "cacheKey_of reg componentType ''en'' = ''component:'' @ componentType @ '':en''"
  by (simp add: cacheKey_of_alt resolved_lang_en)

lemma generate_and_store_unsupported:
  assumes "reg_l10n reg lang = None"
  shows "generate_and_store reg lib redisClient clk c1 made key componentType lang =
         generate_and_store reg lib redisClient clk c1 made key componentType ''en''"
  by (simp add: generate_and_store_def getLocalizedComponent_unsupported[OF assms])

lemma endpoint_unsupported:
  assumes "reg_l10n reg lang = None"
  shows "getLocalizedComponentEndpoint reg lib redisClient clk c componentType (Some lang) =
         getLocalizedComponentEndpoint reg lib redisClient clk c componentType (Some ''en'')"
proof -
  have k: "cacheKey_of reg componentType (query_lang (Some lang)) =
           cacheKey_of reg componentType (query_lang (Some ''en''))"
    by (simp add: query_lang_def cacheKey_of_unsupported[OF assms] cacheKey_of_en)
  have g: "generate_and_store reg lib redisClient clk c1 made key componentType (query_lang (Some lang)) =
           generate_and_store reg lib redisClient clk c1 made key componentType (query_lang (Some ''en''))"
    for c1 made key
    using generate_and_store_unsupported[OF assms] by (simp add: query_lang_def)
  show ?thesis unfolding endpoint_alt k g by (rule refl)
qed

lemma endpoint_default_query:
  "getLocalizedComponentEndpoint reg lib redisClient clk c componentType None =
   getLocalizedComponentEndpoint reg lib redisClient clk c componentType (Some ''en'')"
proof -
  have q: "query_lang None = query_lang (Some ''en'')" by (simp add: query_lang_def)
  show ?thesis unfolding endpoint_alt q by (rule refl)
qed

text \<open>The response of a lookup of a registered component, by the tier that serves it.\<close>

lemma endpoint_resp_cases:
  assumes t: "map_of (reg_templates reg) componentType = Some template"
  shows "\<exists>v b. resp (getLocalizedComponentEndpoint reg lib redisClient clk c componentType query) =
                 StatusOK (v\<lparr>Cached := b\<rparr>) \<and>
               (fst (Get c (tGet clk) (cacheKey_of reg componentType (query_lang query))) = Some v \<or>
                remote_fetch lib redisClient (cacheKey_of reg componentType (query_lang query)) = Some v \<or>
                getLocalizedComponent reg lib clk componentType (query_lang query) = Inr v)"
proof -
  let ?key = "cacheKey_of reg componentType (query_lang query)"
  obtain r c1 where g: "Get c (tGet clk) ?key = (r, c1)" by (cases "Get c (tGet clk) ?key")
  show ?thesis
  proof (cases r)
    case (Some v)
    show ?thesis using endpoint_local_hit[OF g[unfolded Some]] g Some
      by (intro exI[of _ v] exI[of _ True]) simp
  next
    case None
    note g' = g[unfolded None]
    show ?thesis
    proof (cases "remote_fetch lib redisClient ?key")
      case (Some v)
      show ?thesis using endpoint_remote_hit(1)[OF g' Some] Some
        by (intro exI[of _ v] exI[of _ True]) simp
    next
      case N: None
      note k = getLocalizedComponent_known[OF t, of lib clk "query_lang query"]
      show ?thesis using endpoint_both_miss[OF g' N] generate_known(1)[OF k] k
        by (intro exI[of _ "projr (getLocalizedComponent reg lib clk componentType (query_lang query))"]
                  exI[of _ False]) simp
    qed
  qed
qed

lemma slot_language:
  assumes cf: "colon_free reg" and ok: "slot_ok reg (cacheKey_of reg componentType lang) v"
  shows "Language v = resolved_lang reg lang"
proof -
  from ok obtain ct' lang' where
    k: "cacheKey_of reg componentType lang = cacheKey_of reg ct' lang'"
    and l: "Language v = resolved_lang reg lang'"
    unfolding slot_ok_def by blast
  from cacheKey_of_inj[OF cf k] l show ?thesis by simp
qed


lemma cached_value_Put_same:
  assumes inv: "cache_inv c"
  shows "cached_value (Put c now key val) key = Some val"
proof (cases "cache c key")
  case (Some element)
  obtain entry where e: "elems c element = Some entry" using inv_cache_entry[OF inv Some] by auto
  show ?thesis using Some e by (simp add: Put_def cached_value_def)
next
  case None
  then show ?thesis by (simp add: Put_def Let_def cached_value_def)
qed

lemma cached_value_hit:
  assumes "fst (Get c now key) = Some v"
  shows "cached_value (snd (Get c now key)) key = Some v"
proof -
  from Get_cases[of c now key] assms
  obtain element where "cache c key = Some element"
    "Get c now key = (map_option evalue (elems c element),
                        c\<lparr>lruList := list_MoveToBack element (lruList c)\<rparr>)"
    by auto
  then show ?thesis using assms by (simp add: cached_value_def)
qed

text \<open>After a lookup of a registered component the slot of its key holds the artifact served.\<close>

lemma endpoint_fills_slot:
  assumes t: "map_of (reg_templates reg) componentType = Some template" and inv: "cache_inv c"
  shows "\<exists>v b. resp (getLocalizedComponentEndpoint reg lib redisClient clk c componentType query) =
                 StatusOK (v\<lparr>Cached := b\<rparr>) \<and>
               cached_value (componentCache
                  (getLocalizedComponentEndpoint reg lib redisClient clk c componentType query))
                  (cacheKey_of reg componentType (query_lang query)) = Some v"
proof -
  let ?key = "cacheKey_of reg componentType (query_lang query)"
  obtain r c1 where g: "Get c (tGet clk) ?key = (r, c1)" by (cases "Get c (tGet clk) ?key")
  have c1: "cache_inv c1" using Get_inv[OF inv, of "tGet clk" ?key] g by simp
  show ?thesis
  proof (cases r)
    case (Some v)
    have "cached_value c1 ?key = Some v" using cached_value_hit[of c "tGet clk" ?key v] g Some by simp
    then show ?thesis using endpoint_local_hit[OF g[unfolded Some]]
      by (intro exI[of _ v] exI[of _ True]) simp
  next
    case None
    note g' = g[unfolded None]
    show ?thesis
    proof (cases "remote_fetch lib redisClient ?key")
      case (Some v)
      show ?thesis using endpoint_remote_hit(1,2)[OF g' Some] cached_value_Put_same[OF c1]
        by (intro exI[of _ v] exI[of _ True]) simp
    next
      case N: None
      note k = getLocalizedComponent_known[OF t, of lib clk "query_lang query"]
      let ?a = "projr (getLocalizedComponent reg lib clk componentType (query_lang query))"
      have a: "?a\<lparr>Cached := False\<rparr> = ?a" unfolding k by simp
      have k': "getLocalizedComponent reg lib clk componentType (query_lang query) = Inr ?a"
        unfolding k by simp
      show ?thesis
        using endpoint_both_miss[OF g' N] generate_known[OF k'] cached_value_Put_same[OF c1] a
        by (intro exI[of _ ?a] exI[of _ False]) simp
    qed
  qed
qed

lemma length_MoveToBack: "distinct l \<Longrightarrow> length (list_MoveToBack e l) = length l"
  by (cases "e \<in> set l")
     (simp_all add: MoveToBack_eq length_removeAll_distinct list_MoveToBack_def,
      cases l, simp_all)

lemma Get_unexpired:
  assumes "cached_value c key = Some v" and "\<not> expired c now key"
  shows "\<exists>element. Get c now key = (Some v, c\<lparr>lruList := list_MoveToBack element (lruList c)\<rparr>)"
proof -
  from assms(1) obtain element where e: "cache c key = Some element"
    "map_option evalue (elems c element) = Some v"
    by (cases "cache c key") (auto simp: cached_value_def)
  then have "Get c now key = (Some v, c\<lparr>lruList := list_MoveToBack element (lruList c)\<rparr>)"
    using assms(2) by (simp add: Get_def expired_def)
  then show ?thesis by (rule exI)
qed

text \<open>
  Claim C1, amended. For a registered component and a requested language without a
  localization table, the cache key is \<^verbatim>\<open>component:<type>:en\<close>, the key of the request for
  \<^verbatim>\<open>en\<close>; the handler does exactly what it does for the request for \<^verbatim>\<open>en\<close>; and every
  artifact generated for the request has the language \<^verbatim>\<open>en\<close>. When the local cache misses and
  the remote tier returns an artifact under the key, the handler answers with that artifact
  as it is, the \<^verbatim>\<open>cached\<close> flag set. Let the language codes of the registry be free of colons
  (as those of the source are), let decoding keep the language of what was encoded, and let
  the requests so far have started with a new local cache and an empty remote tier that
  answers each read, if with data at all, with data that an earlier request wrote under the
  key read: then the artifact returned has the language \<^verbatim>\<open>en\<close>. A second request for any
  other language without a table, made while the entry has not expired, is answered from
  that same slot: it returns the artifact of the first request with the \<^verbatim>\<open>cached\<close> flag set,
  calls Redis not at all, and leaves the size of the cache as it was.
\<close>

theorem unsupported_language_collapses:
  assumes t: "map_of (reg_templates reg) componentType = Some template"
    and un: "reg_l10n reg lang = None"
  shows "cacheKey_of reg componentType lang = ''component:'' @ componentType @ '':en'' \<and>
         cacheKey_of reg componentType lang = cacheKey_of reg componentType ''en'' \<and>
         getLocalizedComponentEndpoint reg lib redisClient clk
             (serve reg lib (NewTTLCache n d) rqs) componentType (Some lang) =
           getLocalizedComponentEndpoint reg lib redisClient clk
             (serve reg lib (NewTTLCache n d) rqs) componentType (Some ''en'') \<and>
         (\<forall>a. getLocalizedComponent reg lib clk componentType lang = Inr a \<longrightarrow> Language a = ''en'') \<and>
         (fst (Get (serve reg lib (NewTTLCache n d) rqs) (tGet clk)
                 (''component:'' @ componentType @ '':en'')) = None \<and>
          remote_fetch lib redisClient (''component:'' @ componentType @ '':en'') = Some v \<longrightarrow>
            resp (getLocalizedComponentEndpoint reg lib redisClient clk
                    (serve reg lib (NewTTLCache n d) rqs) componentType (Some lang)) =
              StatusOK (v\<lparr>Cached := True\<rparr>)) \<and>
         (colon_free reg \<and> json_keeps_language lib \<and>
          remote_private reg lib (NewTTLCache n d) []
            (rqs @ [\<lparr>rq_redis = redisClient, rq_clock = clk, rq_type = componentType,
                     rq_query = Some lang\<rparr>]) \<longrightarrow>
            (\<exists>a. resp (getLocalizedComponentEndpoint reg lib redisClient clk
                         (serve reg lib (NewTTLCache n d) rqs) componentType (Some lang)) = StatusOK a \<and>
                 Language a = ''en'')) \<and>
         (reg_l10n reg lang' = None \<and>
          \<not> expired (componentCache (getLocalizedComponentEndpoint reg lib redisClient clk
                         (serve reg lib (NewTTLCache n d) rqs) componentType (Some lang)))
                     (tGet clk') (''component:'' @ componentType @ '':en'') \<longrightarrow>
            (\<exists>w b. resp (getLocalizedComponentEndpoint reg lib redisClient clk
                           (serve reg lib (NewTTLCache n d) rqs) componentType (Some lang)) =
                      StatusOK (w\<lparr>Cached := b\<rparr>) \<and>
                    resp (getLocalizedComponentEndpoint reg lib redisClient' clk'
                           (componentCache (getLocalizedComponentEndpoint reg lib redisClient clk
                              (serve reg lib (NewTTLCache n d) rqs) componentType (Some lang)))
                           componentType (Some lang')) =
                      StatusOK (w\<lparr>Cached := True\<rparr>)) \<and>
            calls (getLocalizedComponentEndpoint reg lib redisClient' clk'
                     (componentCache (getLocalizedComponentEndpoint reg lib redisClient clk
                        (serve reg lib (NewTTLCache n d) rqs) componentType (Some lang)))
                     componentType (Some lang')) = [] \<and>
            Size (componentCache (getLocalizedComponentEndpoint reg lib redisClient' clk'
                     (componentCache (getLocalizedComponentEndpoint reg lib redisClient clk
                        (serve reg lib (NewTTLCache n d) rqs) componentType (Some lang)))
                     componentType (Some lang'))) =
              Size (componentCache (getLocalizedComponentEndpoint reg lib redisClient clk
                        (serve reg lib (NewTTLCache n d) rqs) componentType (Some lang))))"
proof (intro conjI allI impI)
  let ?c = "serve reg lib (NewTTLCache n d) rqs"
  let ?key = "cacheKey_of reg componentType lang"
  let ?rq = "\<lparr>rq_redis = redisClient, rq_clock = clk, rq_type = componentType, rq_query = Some lang\<rparr>"
  let ?out1 = "getLocalizedComponentEndpoint reg lib redisClient clk ?c componentType (Some lang)"
  let ?out2 = "getLocalizedComponentEndpoint reg lib redisClient' clk' (componentCache ?out1)
                 componentType (Some lang')"
  show key: "?key = ''component:'' @ componentType @ '':en''" by (rule cacheKey_of_unsupported[OF un])
  show "?key = cacheKey_of reg componentType ''en''"
    by (simp add: cacheKey_of_unsupported[OF un] cacheKey_of_en)
  show "?out1 = getLocalizedComponentEndpoint reg lib redisClient clk ?c componentType (Some ''en'')"
    by (rule endpoint_unsupported[OF un])
  have inv: "cache_inv ?c" by (rule serve_cache_inv[OF NewTTLCache_inv])
  have qkey: "cacheKey_of reg componentType (query_lang (Some lang)) = ?key"
    by (simp add: query_lang_def)
  {
    fix a assume "getLocalizedComponent reg lib clk componentType lang = Inr a"
    then show "Language a = ''en''"
      unfolding getLocalizedComponent_known[OF t] using resolved_lang_unsupported[OF un] by auto
  }
  {
    assume h: "fst (Get ?c (tGet clk) (''component:'' @ componentType @ '':en'')) = None \<and>
               remote_fetch lib redisClient (''component:'' @ componentType @ '':en'') = Some v"
    obtain c1 where g: "Get ?c (tGet clk) (cacheKey_of reg componentType (query_lang (Some lang))) = (None, c1)"
      using h unfolding qkey key by (cases "Get ?c (tGet clk) (''component:'' @ componentType @ '':en'')") simp
    have f: "remote_fetch lib redisClient (cacheKey_of reg componentType (query_lang (Some lang))) = Some v"
      using h unfolding qkey key by simp
    show "resp ?out1 = StatusOK (v\<lparr>Cached := True\<rparr>)" by (rule endpoint_remote_hit(1)[OF g f])
  }
  {
    assume h: "colon_free reg \<and> json_keeps_language lib \<and>
               remote_private reg lib (NewTTLCache n d) [] (rqs @ [?rq])"
    then have cf: "colon_free reg" and jl: "json_keeps_language lib"
      and priv: "remote_private reg lib (NewTTLCache n d) [] (rqs @ [?rq])" by simp_all
    have p: "slots_hold (slot_ok reg) ?c \<and>
             (\<forall>component.
                remote_fetch lib (rq_redis ?rq) (cacheKey_of reg (rq_type ?rq) (query_lang (rq_query ?rq))) =
                  Some component \<longrightarrow>
                slot_ok reg (cacheKey_of reg (rq_type ?rq) (query_lang (rq_query ?rq))) component)"
      by (rule private_last[of reg lib "slot_ok reg", OF generated_slot_ok json_keeps_slot[OF jl]
                NewTTLCache_inv slots_hold_New stored_hold_Nil priv])
    then have ok: "slots_hold (slot_ok reg) ?c"
      and rf: "\<And>component. remote_fetch lib redisClient ?key = Some component \<Longrightarrow>
                 slot_ok reg ?key component"
      by (simp_all add: query_lang_def)
    from endpoint_resp_cases[OF t, of lib redisClient clk ?c "Some lang"]
    obtain u b where r: "resp ?out1 = StatusOK (u\<lparr>Cached := b\<rparr>)"
      and src: "fst (Get ?c (tGet clk) ?key) = Some u \<or> remote_fetch lib redisClient ?key = Some u \<or>
                getLocalizedComponent reg lib clk componentType lang = Inr u"
      by (auto simp: query_lang_def)
    have "slot_ok reg ?key u"
      using src
    proof (elim disjE)
      assume "fst (Get ?c (tGet clk) ?key) = Some u"
      then have "cached_value ?c ?key = Some u" by (rule Get_Some_cached)
      then show ?thesis using ok unfolding slots_hold_def by blast
    next
      assume "remote_fetch lib redisClient ?key = Some u"
      then show ?thesis by (rule rf)
    next
      assume "getLocalizedComponent reg lib clk componentType lang = Inr u"
      from generated_slot_ok[OF this, of "Cached u"] show ?thesis by simp
    qed
    then have "Language u = ''en''"
      using slot_language[OF cf] resolved_lang_unsupported[OF un] by simp
    then show "\<exists>a. resp ?out1 = StatusOK a \<and> Language a = ''en''"
      using r by (intro exI[of _ "u\<lparr>Cached := b\<rparr>"]) simp
  }
  assume h: "reg_l10n reg lang' = None \<and>
             \<not> expired (componentCache ?out1) (tGet clk') (''component:'' @ componentType @ '':en'')"
  have key': "cacheKey_of reg componentType (query_lang (Some lang')) = ?key"
    using h by (simp add: query_lang_def cacheKey_of_unsupported key)
  have inv1: "cache_inv (componentCache ?out1)" by (rule endpoint_inv[OF inv])
  from endpoint_fills_slot[OF t inv, of lib redisClient clk "Some lang"]
  obtain w b' where w: "resp ?out1 = StatusOK (w\<lparr>Cached := b'\<rparr>)"
    "cached_value (componentCache ?out1) ?key = Some w"
    by (auto simp: query_lang_def)
  from Get_unexpired[OF w(2), of "tGet clk'"] h key
  obtain element where g: "Get (componentCache ?out1) (tGet clk') ?key =
      (Some w, (componentCache ?out1)\<lparr>lruList := list_MoveToBack element (lruList (componentCache ?out1))\<rparr>)"
    by auto
  note hit = endpoint_local_hit[of "componentCache ?out1" clk' reg componentType "Some lang'",
                unfolded key', OF g]
  show "\<exists>w b. resp ?out1 = StatusOK (w\<lparr>Cached := b\<rparr>) \<and> resp ?out2 = StatusOK (w\<lparr>Cached := True\<rparr>)"
    using w(1) hit by (intro exI[of _ w] exI[of _ b']) simp
  show "calls ?out2 = []" using hit by simp
  show "Size (componentCache ?out2) = Size (componentCache ?out1)"
    using hit length_MoveToBack[OF inv_distinct[OF inv1]] by (simp add: Size_def list_Len_def)
qed


lemma json_keeps_codec: "json_keeps_language codec_library"
  by (auto simp: json_keeps_language_def codec_library_def)

lemma remote_fetch_store:
  "remote_fetch codec_library (Some (store_redis contents)) key =
     map_option (\<lambda>data. demo_artifact\<lparr>Language := data\<rparr>) (map_of contents key)"
  by (simp add: remote_fetch_def getFromRedis_def store_redis_def codec_library_def split: option.split)

lemma answers_from_store:
  "answers_from stored (Some (store_redis contents)) key \<longleftrightarrow>
     (case map_of contents key of None \<Rightarrow> True | Some data \<Rightarrow> (key, data) \<in> set stored)"
  by (simp add: answers_from_def store_redis_def split: option.split)

lemma endpoint_generate_store:
  assumes g: "Get c (tGet clk) (cacheKey_of reg componentType (query_lang query)) = (None, c1)"
    and f: "remote_fetch lib (Some client) (cacheKey_of reg componentType (query_lang query)) = None"
    and a: "getLocalizedComponent reg lib clk componentType (query_lang query) = Inr component"
    and m: "json_Marshal lib component = Inr data"
  shows "calls (getLocalizedComponentEndpoint reg lib (Some client) clk c componentType query) =
           [CallGet (cacheKey_of reg componentType (query_lang query)),
            CallSet (cacheKey_of reg componentType (query_lang query)) data RedisTTL]"
    and "componentCache (getLocalizedComponentEndpoint reg lib (Some client) clk c componentType query) =
           Put c1 (tPut clk) (cacheKey_of reg componentType (query_lang query)) (component\<lparr>Cached := False\<rparr>)"
  unfolding endpoint_both_miss[OF g f] using a m
  by (simp_all add: generate_and_store_def setInRedis_def Let_def split: option.split)

lemma demo_first_request:
  "\<exists>a. serve the_registry codec_library componentCache0
          [\<lparr>rq_redis = Some (store_redis []), rq_clock = clock_at 0, rq_type = ''welcome'',
            rq_query = Some ''zh''\<rparr>] =
          Put componentCache0 0 ''component:welcome:en'' a \<and>
        calls (getLocalizedComponentEndpoint the_registry codec_library (Some (store_redis []))
                 (clock_at 0) componentCache0 ''welcome'' (Some ''zh'')) =
          [CallGet ''component:welcome:en'', CallSet ''component:welcome:en'' ''en'' RedisTTL]"
proof -
  have zh: "reg_l10n the_registry ''zh'' = None" using the_registry_langs[of "''zh''"] by simp
  have key: "cacheKey_of the_registry ''welcome'' (query_lang (Some ''zh'')) = ''component:welcome:en''"
    using cacheKey_of_unsupported[OF zh, of "''welcome''"] by (simp add: query_lang_def)
  have g: "Get componentCache0 (tGet (clock_at 0))
             (cacheKey_of the_registry ''welcome'' (query_lang (Some ''zh''))) = (None, componentCache0)"
    unfolding key by (simp add: Get_def componentCache0_def NewTTLCache_def)
  have f: "remote_fetch codec_library (Some (store_redis []))
             (cacheKey_of the_registry ''welcome'' (query_lang (Some ''zh''))) = None"
    by (simp add: remote_fetch_store)
  obtain a where a: "getLocalizedComponent the_registry codec_library (clock_at 0) ''welcome''
                       (query_lang (Some ''zh'')) = Inr a"
    and l: "Language a = resolved_lang the_registry ''zh''"
    using getLocalizedComponent_known[OF the_registry_welcome, of codec_library "clock_at 0" "query_lang (Some ''zh'')"]
    by (simp add: query_lang_def)
  have m: "json_Marshal codec_library a = Inr ''en''"
    using l by (simp add: codec_library_def resolved_lang_the_registry)
  note e = endpoint_generate_store[OF g f a m, unfolded key]
  show ?thesis
    using e by (intro exI[of _ "a\<lparr>Cached := False\<rparr>"]) (simp add: serve_def serve_one_def clock_at_def)
qed

lemma Get_componentCache0: "Get componentCache0 now key = (None, componentCache0)"
  by (simp add: Get_def componentCache0_def NewTTLCache_def)

theorem unsupported_language_collapses_witness:
  "map_of (reg_templates the_registry) ''welcome'' =
     Some \<lparr>ComponentName_t = ''WelcomeComponent'', ComponentType_t = ''functional'',
            Template_t = welcome_template,
            RequiredKeys_t = [''welcome_title'', ''welcome_subtitle'', ''login_button'', ''signup_button'']\<rparr> \<and>
   reg_l10n the_registry ''ja'' = None \<and> reg_l10n the_registry ''ko'' = None \<and>
   fst (Get (serve the_registry codec_library componentCache0
               [\<lparr>rq_redis = Some (store_redis []), rq_clock = clock_at 0, rq_type = ''welcome'',
                 rq_query = Some ''zh''\<rparr>])
          (tGet (clock_at (11 * Minute))) ''component:welcome:en'') = None \<and>
   remote_fetch codec_library (Some (store_redis [(''component:welcome:en'', ''en'')]))
     ''component:welcome:en'' = Some (demo_artifact\<lparr>Language := ''en''\<rparr>) \<and>
   colon_free the_registry \<and> json_keeps_language codec_library \<and>
   remote_private the_registry codec_library componentCache0 []
     [\<lparr>rq_redis = Some (store_redis []), rq_clock = clock_at 0, rq_type = ''welcome'',
       rq_query = Some ''zh''\<rparr>,
      \<lparr>rq_redis = Some (store_redis [(''component:welcome:en'', ''en'')]),
       rq_clock = clock_at (11 * Minute), rq_type = ''welcome'', rq_query = Some ''ja''\<rparr>] \<and>
   \<not> expired (componentCache (getLocalizedComponentEndpoint the_registry codec_library
                  (Some (store_redis [(''component:welcome:en'', ''en'')])) (clock_at (11 * Minute))
                  (serve the_registry codec_library componentCache0
                     [\<lparr>rq_redis = Some (store_redis []), rq_clock = clock_at 0, rq_type = ''welcome'',
                       rq_query = Some ''zh''\<rparr>])
                  ''welcome'' (Some ''ja'')))
        (tGet (clock_at (11 * Minute + Second))) ''component:welcome:en'' \<and>
   cacheKey_of the_registry ''welcome'' ''ja'' = ''component:welcome:en'' \<and>
   (\<exists>a. getLocalizedComponent the_registry codec_library (clock_at (11 * Minute)) ''welcome'' ''ja'' =
          Inr a \<and>
        Language a = ''en'') \<and>
   resp (getLocalizedComponentEndpoint the_registry codec_library
           (Some (store_redis [(''component:welcome:en'', ''en'')])) (clock_at (11 * Minute))
           (serve the_registry codec_library componentCache0
              [\<lparr>rq_redis = Some (store_redis []), rq_clock = clock_at 0, rq_type = ''welcome'',
                rq_query = Some ''zh''\<rparr>])
           ''welcome'' (Some ''ja'')) =
     StatusOK (demo_artifact\<lparr>Language := ''en'', Cached := True\<rparr>) \<and>
   (\<exists>a. resp (getLocalizedComponentEndpoint the_registry codec_library
                (Some (store_redis [(''component:welcome:en'', ''en'')])) (clock_at (11 * Minute))
                (serve the_registry codec_library componentCache0
                   [\<lparr>rq_redis = Some (store_redis []), rq_clock = clock_at 0, rq_type = ''welcome'',
                     rq_query = Some ''zh''\<rparr>])
                ''welcome'' (Some ''ja'')) = StatusOK a \<and>
        Language a = ''en'') \<and>
   resp (getLocalizedComponentEndpoint the_registry codec_library None (clock_at (11 * Minute + Second))
           (componentCache (getLocalizedComponentEndpoint the_registry codec_library
              (Some (store_redis [(''component:welcome:en'', ''en'')])) (clock_at (11 * Minute))
              (serve the_registry codec_library componentCache0
                 [\<lparr>rq_redis = Some (store_redis []), rq_clock = clock_at 0, rq_type = ''welcome'',
                   rq_query = Some ''zh''\<rparr>])
              ''welcome'' (Some ''ja'')))
           ''welcome'' (Some ''ko'')) =
     StatusOK (demo_artifact\<lparr>Language := ''en'', Cached := True\<rparr>) \<and>
   calls (getLocalizedComponentEndpoint the_registry codec_library None (clock_at (11 * Minute + Second))
           (componentCache (getLocalizedComponentEndpoint the_registry codec_library
              (Some (store_redis [(''component:welcome:en'', ''en'')])) (clock_at (11 * Minute))
              (serve the_registry codec_library componentCache0
                 [\<lparr>rq_redis = Some (store_redis []), rq_clock = clock_at 0, rq_type = ''welcome'',
                   rq_query = Some ''zh''\<rparr>])
              ''welcome'' (Some ''ja'')))
           ''welcome'' (Some ''ko'')) = [] \<and>
   Size (componentCache (getLocalizedComponentEndpoint the_registry codec_library None
           (clock_at (11 * Minute + Second))
           (componentCache (getLocalizedComponentEndpoint the_registry codec_library
              (Some (store_redis [(''component:welcome:en'', ''en'')])) (clock_at (11 * Minute))
              (serve the_registry codec_library componentCache0
                 [\<lparr>rq_redis = Some (store_redis []), rq_clock = clock_at 0, rq_type = ''welcome'',
                   rq_query = Some ''zh''\<rparr>])
              ''welcome'' (Some ''ja'')))
           ''welcome'' (Some ''ko''))) = 1"
proof -
  let ?rq1 = "\<lparr>rq_redis = Some (store_redis []), rq_clock = clock_at 0, rq_type = ''welcome'',
            rq_query = Some ''zh''\<rparr>"
  let ?client = "Some (store_redis [(''component:welcome:en'', ''en'')])"
  let ?rq2 = "\<lparr>rq_redis = ?client, rq_clock = clock_at (11 * Minute), rq_type = ''welcome'',
              rq_query = Some ''ja''\<rparr>"
  let ?c = "serve the_registry codec_library componentCache0 [?rq1]"
  let ?out1 = "getLocalizedComponentEndpoint the_registry codec_library ?client (clock_at (11 * Minute))
                 ?c ''welcome'' (Some ''ja'')"
  let ?out2 = "getLocalizedComponentEndpoint the_registry codec_library None
                 (clock_at (11 * Minute + Second)) (componentCache ?out1) ''welcome'' (Some ''ko'')"
  let ?d = "demo_artifact\<lparr>Language := ''en''\<rparr>"
  have zh: "reg_l10n the_registry ''zh'' = None" and ja: "reg_l10n the_registry ''ja'' = None"
    and ko: "reg_l10n the_registry ''ko'' = None"
    using the_registry_langs[of "''zh''"] the_registry_langs[of "''ja''"] the_registry_langs[of "''ko''"]
    by simp_all
  have key1: "cacheKey_of the_registry ''welcome'' (query_lang (Some ''zh'')) = ''component:welcome:en''"
    using cacheKey_of_unsupported[OF zh, of "''welcome''"] by (simp add: query_lang_def)
  have key2: "cacheKey_of the_registry ''welcome'' (query_lang (Some ''ja'')) = ''component:welcome:en''"
    using cacheKey_of_unsupported[OF ja, of "''welcome''"] by (simp add: query_lang_def)
  from demo_first_request obtain a0 where
    c: "?c = Put componentCache0 0 ''component:welcome:en'' a0"
    and cs: "calls (getLocalizedComponentEndpoint the_registry codec_library (Some (store_redis []))
                 (clock_at 0) componentCache0 ''welcome'' (Some ''zh'')) =
          [CallGet ''component:welcome:en'', CallSet ''component:welcome:en'' ''en'' RedisTTL]"
    by blast
  define c1 where "c1 = snd (Get ?c (tGet (clock_at (11 * Minute))) ''component:welcome:en'')"
  have g0: "fst (Get ?c (tGet (clock_at (11 * Minute))) ''component:welcome:en'') = None"
    unfolding c
    by (simp add: Get_def Put_def componentCache0_def NewTTLCache_def Let_def clock_at_def
          CacheTTL_def Minute_def Second_def list_Len_def CacheMaxSize_def list_PushBack_def)
  have g: "Get ?c (tGet (clock_at (11 * Minute)))
             (cacheKey_of the_registry ''welcome'' (query_lang (Some ''ja''))) = (None, c1)"
    unfolding key2 c1_def using g0 by (simp add: prod_eq_iff)
  have f0: "remote_fetch codec_library ?client ''component:welcome:en'' = Some ?d"
    by (simp add: remote_fetch_store)
  have f: "remote_fetch codec_library ?client
             (cacheKey_of the_registry ''welcome'' (query_lang (Some ''ja''))) = Some ?d"
    unfolding key2 by (rule f0)
  have priv: "remote_private the_registry codec_library componentCache0 [] [?rq1, ?rq2]"
    by (simp add: key1 key2 answers_from_store cs)
  have cc: "componentCache ?out1 =
              Put c1 (tPut (clock_at (11 * Minute))) ''component:welcome:en'' ?d"
    using endpoint_remote_hit(2)[OF g f] unfolding key2 .
  have c1: "c1 = snd (Get (Put componentCache0 0 ''component:welcome:en'' a0) (11 * Minute)
                        ''component:welcome:en'')"
    unfolding c1_def c by (simp add: clock_at_def)
  have fresh: "\<not> expired (componentCache ?out1) (tGet (clock_at (11 * Minute + Second)))
                   ''component:welcome:en''"
    unfolding cc c1
    by (simp add: expired_def Get_def Put_def componentCache0_def NewTTLCache_def Let_def clock_at_def
          CacheTTL_def Minute_def Second_def list_Len_def CacheMaxSize_def list_PushBack_def
          list_Remove_def)
  have sz: "Size (componentCache ?out1) = 1"
    unfolding cc c1
    by (simp add: Size_def Get_def Put_def componentCache0_def NewTTLCache_def Let_def clock_at_def
          CacheTTL_def Minute_def Second_def list_Len_def CacheMaxSize_def list_PushBack_def
          list_Remove_def)
  note th = unsupported_language_collapses[OF the_registry_welcome ja, where lib = codec_library
      and redisClient = ?client and clk = "clock_at (11 * Minute)" and n = CacheMaxSize and d = CacheTTL
      and rqs = "[?rq1]" and v = ?d and lang' = "''ko''" and clk' = "clock_at (11 * Minute + Second)"
      and redisClient' = None, unfolded componentCache0_def[symmetric]]
  have g0': "fst (Get ?c (tGet (clock_at (11 * Minute))) (''component:'' @ ''welcome'' @ '':en'')) = None"
    using g0 by simp
  have f0': "remote_fetch codec_library ?client (''component:'' @ ''welcome'' @ '':en'') = Some ?d"
    using f0 by simp
  have priv': "remote_private the_registry codec_library componentCache0 [] ([?rq1] @ [?rq2])"
    using priv by simp
  have fresh': "\<not> expired (componentCache ?out1) (tGet (clock_at (11 * Minute + Second)))
                   (''component:'' @ ''welcome'' @ '':en'')"
    using fresh by simp
  from th have k: "cacheKey_of the_registry ''welcome'' ''ja'' = ''component:welcome:en''" by simp
  obtain a1 where a1: "getLocalizedComponent the_registry codec_library (clock_at (11 * Minute))
                         ''welcome'' ''ja'' = Inr a1"
    using getLocalizedComponent_known[OF the_registry_welcome, of codec_library "clock_at (11 * Minute)"
            "''ja''"]
    by blast
  from th a1 have "Language a1 = ''en''" by blast
  then have gl: "\<exists>a. getLocalizedComponent the_registry codec_library (clock_at (11 * Minute))
                       ''welcome'' ''ja'' = Inr a \<and> Language a = ''en''"
    using a1 by blast
  from th g0' f0' have r: "resp ?out1 = StatusOK (?d\<lparr>Cached := True\<rparr>)" by blast
  from th colon_free_the_registry json_keeps_codec priv'
  have e: "\<exists>a. resp ?out1 = StatusOK a \<and> Language a = ''en''" by blast
  from th ko fresh'
  have s: "(\<exists>w b. resp ?out1 = StatusOK (w\<lparr>Cached := b\<rparr>) \<and> resp ?out2 = StatusOK (w\<lparr>Cached := True\<rparr>))"
    and cl: "calls ?out2 = []"
    and sz2: "Size (componentCache ?out2) = Size (componentCache ?out1)"
    by blast+
  from s obtain w b where w: "resp ?out1 = StatusOK (w\<lparr>Cached := b\<rparr>)"
    "resp ?out2 = StatusOK (w\<lparr>Cached := True\<rparr>)" by blast
  have "w\<lparr>Cached := b\<rparr> = ?d\<lparr>Cached := True\<rparr>" using w(1) r by simp
  then have "(w\<lparr>Cached := b\<rparr>)\<lparr>Cached := True\<rparr> = (?d\<lparr>Cached := True\<rparr>)\<lparr>Cached := True\<rparr>"
    by (rule arg_cong)
  then have "w\<lparr>Cached := True\<rparr> = ?d\<lparr>Cached := True\<rparr>" by simp
  then have r2: "resp ?out2 = StatusOK (demo_artifact\<lparr>Language := ''en'', Cached := True\<rparr>)"
    using w(2) by simp
  have r1: "resp ?out1 = StatusOK (demo_artifact\<lparr>Language := ''en'', Cached := True\<rparr>)"
    using r by simp
  have s2: "Size (componentCache ?out2) = 1" using sz2 sz by simp
  show ?thesis
    using the_registry_welcome ja ko g0 f0 colon_free_the_registry json_keeps_codec priv fresh k gl r1 e
      r2 cl s2
    by (intro conjI)
qed

text \<open>
  The remote tier holds under the key \<^verbatim>\<open>component:welcome:en\<close> data that decodes to an
  artifact in the language \<^verbatim>\<open>zh\<close>. The request for \<^verbatim>\<open>welcome\<close> in \<^verbatim>\<open>zh\<close>, a language without
  a table, meets an empty local cache and is answered with that artifact: its language is
  \<^verbatim>\<open>zh\<close>, the language requested.
\<close>

theorem unsupported_language_remote_entry_counterexample:
  "map_of (reg_templates the_registry) ''welcome'' =
     Some \<lparr>ComponentName_t = ''WelcomeComponent'', ComponentType_t = ''functional'',
            Template_t = welcome_template,
            RequiredKeys_t = [''welcome_title'', ''welcome_subtitle'', ''login_button'', ''signup_button'']\<rparr> \<and>
   reg_l10n the_registry ''zh'' = None \<and>
   resp (getLocalizedComponentEndpoint the_registry codec_library
           (Some (store_redis [(''component:welcome:en'', ''zh'')])) (clock_at 0) componentCache0
           ''welcome'' (Some ''zh'')) =
     StatusOK (demo_artifact\<lparr>Language := ''zh'', Cached := True\<rparr>) \<and>
   Language (demo_artifact\<lparr>Language := ''zh'', Cached := True\<rparr>) = ''zh''"
proof -
  have zh: "reg_l10n the_registry ''zh'' = None" using the_registry_langs[of "''zh''"] by simp
  have key: "cacheKey_of the_registry ''welcome'' (query_lang (Some ''zh'')) = ''component:welcome:en''"
    using cacheKey_of_unsupported[OF zh, of "''welcome''"] by (simp add: query_lang_def)
  have g: "Get componentCache0 (tGet (clock_at 0))
             (cacheKey_of the_registry ''welcome'' (query_lang (Some ''zh''))) = (None, componentCache0)"
    by (rule Get_componentCache0)
  have f: "remote_fetch codec_library (Some (store_redis [(''component:welcome:en'', ''zh'')]))
             (cacheKey_of the_registry ''welcome'' (query_lang (Some ''zh''))) =
           Some (demo_artifact\<lparr>Language := ''zh''\<rparr>)"
    unfolding key by (simp add: remote_fetch_store)
  have "resp (getLocalizedComponentEndpoint the_registry codec_library
           (Some (store_redis [(''component:welcome:en'', ''zh'')])) (clock_at 0) componentCache0
           ''welcome'' (Some ''zh'')) =
     StatusOK (demo_artifact\<lparr>Language := ''zh'', Cached := True\<rparr>)"
    using endpoint_remote_hit(1)[OF g f] by simp
  then show ?thesis using the_registry_welcome zh by simp
qed



lemma demo_registry_banner:
  "map_of (reg_templates demo_registry) ''banner'' =
     Some \<lparr>ComponentName_t = ''Banner'', ComponentType_t = ''functional'',
            Template_t = ''<b>{l10n.title}</b><i>{l10n.subtitle}</i>'',
            RequiredKeys_t = [''title'', ''subtitle'']\<rparr>"
  by (simp add: demo_registry_def)

theorem remote_failures_absorbed_witness:
  "map_of (reg_templates demo_registry) ''banner'' =
     Some \<lparr>ComponentName_t = ''Banner'', ComponentType_t = ''functional'',
            Template_t = ''<b>{l10n.title}</b><i>{l10n.subtitle}</i>'',
            RequiredKeys_t = [''title'', ''subtitle'']\<rparr> \<and>
   fst (Get componentCache0 (tGet (clock_at 0))
          (cacheKey_of demo_registry ''banner'' (query_lang (Some ''fr'')))) = None \<and>
   getFromRedis demo_library failing_redis
       (cacheKey_of demo_registry ''banner'' (query_lang (Some ''fr''))) =
     Inl ''dial tcp: connection refused'' \<and>
   (\<exists>a. getLocalizedComponent demo_registry demo_library (clock_at 0) ''banner'' ''fr'' = Inr a \<and>
        fst (setInRedis demo_library failing_redis
               (cacheKey_of demo_registry ''banner'' (query_lang (Some ''fr''))) a) =
          Some ''dial tcp: connection refused'' \<and>
        resp (getLocalizedComponentEndpoint demo_registry demo_library (Some failing_redis)
                (clock_at 0) componentCache0 ''banner'' (Some ''fr'')) = StatusOK a \<and>
        Language a = ''fr'' \<and> Cached a = False) \<and>
   resp (getLocalizedComponentEndpoint demo_registry demo_library (Some failing_redis)
           (clock_at 0) componentCache0 ''banner'' (Some ''fr'')) =
     resp (getLocalizedComponentEndpoint demo_registry demo_library None
           (clock_at 0) componentCache0 ''banner'' (Some ''fr'')) \<and>
   componentCache (getLocalizedComponentEndpoint demo_registry demo_library (Some failing_redis)
           (clock_at 0) componentCache0 ''banner'' (Some ''fr'')) =
     componentCache (getLocalizedComponentEndpoint demo_registry demo_library None
           (clock_at 0) componentCache0 ''banner'' (Some ''fr'')) \<and>
   printed (getLocalizedComponentEndpoint demo_registry demo_library (Some failing_redis)
              (clock_at 0) componentCache0 ''banner'' (Some ''fr'')) =
     [''Warning: Failed to cache in Redis: dial tcp: connection refused\<newline>'']"
proof -
  let ?key = "cacheKey_of demo_registry ''banner'' (query_lang (Some ''fr''))"
  have g: "fst (Get componentCache0 (tGet (clock_at 0)) ?key) = None"
    by (simp add: Get_def componentCache0_def NewTTLCache_def)
  have f: "getFromRedis demo_library failing_redis ?key = Inl ''dial tcp: connection refused''"
    by (simp add: getFromRedis_def failing_redis_def)
  obtain a where a: "getLocalizedComponent demo_registry demo_library (clock_at 0) ''banner''
                       (query_lang (Some ''fr'')) = Inr a"
    using getLocalizedComponent_known[OF demo_registry_banner] by blast
  have l: "Language a = ''fr''" "Cached a = False"
    using a unfolding getLocalizedComponent_known[OF demo_registry_banner]
    by (auto simp: resolved_lang_def demo_registry_def query_lang_def)
  have st: "fst (setInRedis demo_library failing_redis ?key a) = Some ''dial tcp: connection refused''"
    by (simp add: setInRedis_def demo_library_def failing_redis_def)
  note th = remote_failures_absorbed[OF demo_registry_banner, of demo_library "Some failing_redis"
      "clock_at 0" componentCache0 "Some ''fr''" failing_redis "''dial tcp: connection refused''" a
      "''dial tcp: connection refused''"]
  from th g f a st
  have r: "resp (getLocalizedComponentEndpoint demo_registry demo_library (Some failing_redis)
                (clock_at 0) componentCache0 ''banner'' (Some ''fr'')) = StatusOK a"
    and p: "printed (getLocalizedComponentEndpoint demo_registry demo_library (Some failing_redis)
              (clock_at 0) componentCache0 ''banner'' (Some ''fr'')) =
            [''Warning: Failed to cache in Redis: '' @ ''dial tcp: connection refused'' @ ''\<newline>'']"
    by blast+
  from th f
  have same: "resp (getLocalizedComponentEndpoint demo_registry demo_library (Some failing_redis)
           (clock_at 0) componentCache0 ''banner'' (Some ''fr'')) =
     resp (getLocalizedComponentEndpoint demo_registry demo_library None
           (clock_at 0) componentCache0 ''banner'' (Some ''fr''))"
    "componentCache (getLocalizedComponentEndpoint demo_registry demo_library (Some failing_redis)
           (clock_at 0) componentCache0 ''banner'' (Some ''fr'')) =
     componentCache (getLocalizedComponentEndpoint demo_registry demo_library None
           (clock_at 0) componentCache0 ''banner'' (Some ''fr''))"
    by blast+
  have a': "getLocalizedComponent demo_registry demo_library (clock_at 0) ''banner'' ''fr'' = Inr a"
    using a by (simp add: query_lang_def)
  have "\<exists>a. getLocalizedComponent demo_registry demo_library (clock_at 0) ''banner'' ''fr'' = Inr a \<and>
        fst (setInRedis demo_library failing_redis ?key a) = Some ''dial tcp: connection refused'' \<and>
        resp (getLocalizedComponentEndpoint demo_registry demo_library (Some failing_redis)
                (clock_at 0) componentCache0 ''banner'' (Some ''fr'')) = StatusOK a \<and>
        Language a = ''fr'' \<and> Cached a = False"
    using a' st r l by blast
  moreover have "printed (getLocalizedComponentEndpoint demo_registry demo_library (Some failing_redis)
              (clock_at 0) componentCache0 ''banner'' (Some ''fr'')) =
     [''Warning: Failed to cache in Redis: dial tcp: connection refused\<newline>'']"
    using p by simp
  ultimately show ?thesis using demo_registry_banner g f same by (intro conjI)
qed

theorem local_hit_no_writes_witness:
  "cache (Put componentCache0 0 ''component:banner:fr'' demo_artifact)
     (cacheKey_of demo_registry ''banner'' (query_lang (Some ''fr''))) = Some 0 \<and>
   elems (Put componentCache0 0 ''component:banner:fr'' demo_artifact) 0 =
     Some \<lparr>ekey = ''component:banner:fr'', evalue = demo_artifact\<rparr> \<and>
   timestamps (Put componentCache0 0 ''component:banner:fr'' demo_artifact)
     (cacheKey_of demo_registry ''banner'' (query_lang (Some ''fr''))) = Some 0 \<and>
   tGet (clock_at Minute) - 0 \<le> ttl (Put componentCache0 0 ''component:banner:fr'' demo_artifact) \<and>
   resp (getLocalizedComponentEndpoint demo_registry demo_library (Some failing_redis)
           (clock_at Minute) (Put componentCache0 0 ''component:banner:fr'' demo_artifact)
           ''banner'' (Some ''fr'')) = StatusOK (demo_artifact\<lparr>Cached := True\<rparr>) \<and>
   calls (getLocalizedComponentEndpoint demo_registry demo_library (Some failing_redis)
           (clock_at Minute) (Put componentCache0 0 ''component:banner:fr'' demo_artifact)
           ''banner'' (Some ''fr'')) = [] \<and>
   cached_value (componentCache (getLocalizedComponentEndpoint demo_registry demo_library
           (Some failing_redis) (clock_at Minute)
           (Put componentCache0 0 ''component:banner:fr'' demo_artifact) ''banner'' (Some ''fr'')))
       ''component:banner:fr'' = Some demo_artifact"
proof -
  let ?c = "Put componentCache0 0 ''component:banner:fr'' demo_artifact"
  let ?key = "cacheKey_of demo_registry ''banner'' (query_lang (Some ''fr''))"
  have key: "?key = ''component:banner:fr''"
    by (simp add: query_lang_def cacheKey_of_def demo_registry_def)
  have c: "cache ?c ''component:banner:fr'' = Some 0"
      "elems ?c 0 = Some \<lparr>ekey = ''component:banner:fr'', evalue = demo_artifact\<rparr>"
      "timestamps ?c ''component:banner:fr'' = Some 0"
      "tGet (clock_at Minute) - 0 \<le> ttl ?c"
    by (simp_all add: Put_def componentCache0_def NewTTLCache_def Let_def list_Len_def
          CacheMaxSize_def clock_at_def CacheTTL_def Minute_def Second_def)
  note th = local_hit_no_writes[of ?c demo_registry "''banner''" "Some ''fr''" 0
      "\<lparr>ekey = ''component:banner:fr'', evalue = demo_artifact\<rparr>" 0 "clock_at Minute"
      demo_library "Some failing_redis", unfolded key, OF c]
  from th have o: "getLocalizedComponentEndpoint demo_registry demo_library (Some failing_redis)
           (clock_at Minute) ?c ''banner'' (Some ''fr'') =
         \<lparr>resp = StatusOK (demo_artifact\<lparr>Cached := True\<rparr>),
          componentCache = ?c\<lparr>lruList := list_MoveToBack 0 (lruList ?c)\<rparr>,
          calls = [], printed = []\<rparr>"
    by simp
  have v: "cached_value (?c\<lparr>lruList := list_MoveToBack 0 (lruList ?c)\<rparr>) ''component:banner:fr'' =
           Some demo_artifact"
    using c(1,2) by (simp add: cached_value_def)
  show ?thesis unfolding o key using c v by simp
qed

end
